theory Spec2Isabelle
  imports Main "HOL-Library.AList" "HOL-Library.Sublist"
begin

section \<open>Python values, exceptions and the library functions the code calls\<close>

subsection \<open>Exceptions and values\<close>

text \<open>
  Exceptions are values. Every class the modelled code raises or catches by name has a
  kind of its own; \<open>OtherException\<close> stands for any further subclass of \<open>Exception\<close>
  and \<open>CancelledError\<close> for the exceptions that derive from \<open>BaseException\<close> only, which
  an \<open>except Exception\<close> clause lets through. \<open>str_exn\<close> is \<open>str(e)\<close>.
\<close>

datatype exn_kind = ValueError | TypeError | AttributeError | IndexError | RuntimeError
  | JSONDecodeError | TimeoutError | OtherException | CancelledError

datatype exn = Raise (kind: exn_kind) (str_exn: string)

fun is_Exception :: "exn \<Rightarrow> bool" where
  "is_Exception (Raise CancelledError m) = False"
| "is_Exception (Raise k m) = True"

text \<open>
  The values that flow through the code: \<open>None\<close>, booleans, unbounded integers, strings,
  lists, dictionaries (insertion-ordered, as association lists) and other objects. An
  object is described by what \<open>custom_serializer\<close> and \<open>str\<close> read from it: its
  \<open>__dict__\<close> if it has one, the result of its \<open>to_dict()\<close> if it has that method, and its
  string form. A finite float is given by a mantissa and an exponent (the number
  \<open>m * 2^e\<close>); the code only passes floats on, so no arithmetic on them is needed. The
  values \<open>nan\<close> and \<open>inf\<close>, which JSON does not have, and float keys are not modelled.
  \<open>KTuple\<close> is a dictionary key of a type that \<open>json.dumps\<close> rejects.
\<close>

datatype py_key = KStr string | KInt int | KBool bool | KNone | KTuple

datatype py_value = PNone | PBool bool | PInt int | PFloat int int | PStr string
  | PList "py_value list"
  | PDict "(py_key \<times> py_value) list"
  | PObj (dunder_dict: "py_value option") (to_dict: "py_value option") (obj_str: string)

fun is_dict_or_list :: "py_value \<Rightarrow> bool" where
  "is_dict_or_list (PList xs) = True"
| "is_dict_or_list (PDict d) = True"
| "is_dict_or_list v = False"

text \<open>\<open>str(i)\<close> for an integer: its decimal digits.\<close>

fun str_nat :: "nat \<Rightarrow> string" where
  "str_nat n = (if n < 10 then [''0123456789'' ! n]
                else str_nat (n div 10) @ [''0123456789'' ! (n mod 10)])"

definition str_int :: "int \<Rightarrow> string" where
  "str_int i = (if i < 0 then CHR ''-'' # str_nat (nat (- i)) else str_nat (nat i))"

subsection \<open>The data model of tasks\<close>

text \<open>
  \<open>Task\<close>, \<open>TaskStatus\<close>, \<open>Message\<close>, \<open>Artifact\<close> and the parts are declared in
  \<open>common.types\<close>, outside the modelled files. They have the fields the code reads and
  writes, and the states are the three the spec names. A part is written by the code as a
  dictionary with the tag \<open>text\<close> or \<open>data\<close>; the constructors are taken to accept every
  part the code builds. A task that has no artifacts yet has \<open>None\<close> for its list, the
  case \<open>_update_store\<close> tests for.
\<close>

datatype task_state = INPUT_REQUIRED | COMPLETED | FAILED

datatype part = TextPart string | DataPart py_value

record message =
  role :: string
  parts :: "part list"

record task_status =
  state :: task_state
  status_message :: "message option"

datatype artifact = Artifact "part list"

record task =
  task_id :: string
  status :: task_status
  artifacts :: "artifact list option"

subsection \<open>What the surroundings supply\<close>

text \<open>
  One call of the agent wrapper, seen from the task manager: it returns a value, raises,
  or does not finish within the time the caller waits.
\<close>

datatype agent_outcome = Returns py_value | Raises exn | Hangs

text \<open>
  The Python runtime, its standard library and the modules outside the modelled files.
  \<open>loop_running\<close> says whether an asyncio event loop is running in the calling thread;
  \<open>json_loads s\<close> is \<open>json.loads(s)\<close>, \<open>None\<close> when it raises \<open>JSONDecodeError\<close>;
  \<open>json_text\<close> is the text \<open>json.dumps\<close> writes for a JSON value; \<open>container_repr\<close> is
  \<open>str\<close> of a list or dictionary and \<open>float_repr\<close> that of a float; \<open>are_modalities_compatible\<close> is the function of that
  name in \<open>common.server.utils\<close>; \<open>initial_status\<close> is the status \<open>upsert_task\<close> gives
  a task it creates; \<open>agent_invoke\<close> is \<open>self.agent.invoke\<close>.
\<close>

record runtime =
  loop_running :: bool
  json_loads :: "string \<Rightarrow> py_value option"
  json_text :: "py_value \<Rightarrow> string"
  container_repr :: "py_value \<Rightarrow> string"
  float_repr :: "int \<Rightarrow> int \<Rightarrow> string"
  are_modalities_compatible :: "string list option \<Rightarrow> string list \<Rightarrow> bool"
  initial_status :: task_status
  agent_invoke :: "string \<Rightarrow> string \<Rightarrow> agent_outcome"

text \<open>\<open>str(x)\<close>.\<close>

fun py_str :: "runtime \<Rightarrow> py_value \<Rightarrow> string" where
  "py_str rt PNone = ''None''"
| "py_str rt (PBool b) = (if b then ''True'' else ''False'')"
| "py_str rt (PInt i) = str_int i"
| "py_str rt (PFloat m e) = float_repr rt m e"
| "py_str rt (PStr s) = s"
| "py_str rt (PObj d t s) = s"
| "py_str rt v = container_repr rt v"

subsection \<open>\<open>json.loads(json.dumps(x, default=custom_serializer))\<close>\<close>

text \<open>
  \<open>json.dumps\<close> turns dictionary keys into strings and raises \<open>TypeError\<close> on a key that
  is not a string, number, boolean or \<open>None\<close>.
\<close>

fun json_key :: "py_key \<Rightarrow> exn + string" where
  "json_key (KStr s) = Inr s"
| "json_key (KInt i) = Inr (str_int i)"
| "json_key (KBool b) = Inr (if b then ''true'' else ''false'')"
| "json_key KNone = Inr ''null''"
| "json_key KTuple = Inl (Raise TypeError ''keys must be str, int, float, bool or None, not tuple'')"

text \<open>
  Reading an object back, \<open>json.loads\<close> builds the dictionary pair by pair: a repeated key
  keeps its first position and takes the last value.
\<close>

definition dict_of_pairs :: "(py_key \<times> py_value) list \<Rightarrow> (py_key \<times> py_value) list" where
  "dict_of_pairs kvs = foldl (\<lambda>d (k, v). AList.update k v d) [] kvs"

text \<open>
  \<open>custom_serializer\<close> is the \<open>default\<close> hook: the encoder calls it on a value it cannot
  serialise and encodes what it returns, which is \<open>obj.__dict__\<close>, else \<open>obj.to_dict()\<close>,
  else \<open>str(obj)\<close>. \<open>json_value x\<close> is the JSON value that \<open>json.dumps(x,
  default=custom_serializer)\<close> writes, as \<open>json.loads\<close> reads it back.
\<close>

fun json_value :: "py_value \<Rightarrow> exn + py_value"
  and json_values :: "py_value list \<Rightarrow> exn + py_value list"
  and json_items :: "(py_key \<times> py_value) list \<Rightarrow> exn + (py_key \<times> py_value) list" where
  "json_value (PList xs) = (case json_values xs of Inl e \<Rightarrow> Inl e | Inr ys \<Rightarrow> Inr (PList ys))"
| "json_value (PDict d) =
     (case json_items d of Inl e \<Rightarrow> Inl e | Inr kvs \<Rightarrow> Inr (PDict (dict_of_pairs kvs)))"
| "json_value (PObj (Some d) t s) = json_value d"
| "json_value (PObj None (Some v) s) = json_value v"
| "json_value (PObj None None s) = Inr (PStr s)"
| "json_value v = Inr v"
| "json_values [] = Inr []"
| "json_values (x # xs) =
     (case json_value x of Inl e \<Rightarrow> Inl e
      | Inr y \<Rightarrow> (case json_values xs of Inl e \<Rightarrow> Inl e | Inr ys \<Rightarrow> Inr (y # ys)))"
| "json_items [] = Inr []"
| "json_items ((k, v) # kvs) =
     (case json_key k of Inl e \<Rightarrow> Inl e
      | Inr s \<Rightarrow> (case json_value v of Inl e \<Rightarrow> Inl e
         | Inr y \<Rightarrow> (case json_items kvs of Inl e \<Rightarrow> Inl e
            | Inr rest \<Rightarrow> Inr ((KStr s, y) # rest))))"

definition json_dumps :: "runtime \<Rightarrow> py_value \<Rightarrow> exn + string" where
  "json_dumps rt x = (case json_value x of Inl e \<Rightarrow> Inl e | Inr j \<Rightarrow> Inr (json_text rt j))"

definition json_loads_dumps :: "py_value \<Rightarrow> exn + py_value" where
  "json_loads_dumps x = json_value x"

section \<open>The task manager (\<open>task_manager.py\<close>)\<close>

record task_send_params =
  tsp_id :: string
  sessionId :: string
  tsp_message :: message
  acceptedOutputModes :: "string list option"

record send_task_request =
  req_id :: string
  params :: task_send_params

datatype send_task_response =
    SendTaskResponse (resp_id: string) (result: task)
  | IncompatibleTypesError string

type_synonym task_store = "string \<rightharpoonup> task"

definition BLOCKCHAIN_TIMEOUT :: int where
  "BLOCKCHAIN_TIMEOUT = 45"

definition SUPPORTED_CONTENT_TYPES :: "string list" where
  "SUPPORTED_CONTENT_TYPES = [''text'', ''text/plain'']"

text \<open>
  Modelled from the spec: \<open>InMemoryTaskManager.upsert_task\<close>, which is inherited from a
  module outside the modelled files. The spec gives it create-if-absent, otherwise-reuse
  semantics; a created task has no artifacts yet.
\<close>

definition upsert_task :: "runtime \<Rightarrow> task_store \<Rightarrow> task_send_params \<Rightarrow> task_store" where
  "upsert_task rt tasks p =
     (case tasks (tsp_id p) of
        None \<Rightarrow> tasks(tsp_id p \<mapsto>
                  \<lparr>task_id = tsp_id p, status = initial_status rt, artifacts = None\<rparr>)
      | Some t \<Rightarrow> tasks)"

text \<open>
  \<open>_validate_request\<close> returns an error response when the requested output modes are not
  compatible with the agent's content types, and \<open>None\<close> otherwise.
\<close>

definition validate_request :: "runtime \<Rightarrow> send_task_request \<Rightarrow> send_task_response option" where
  "validate_request rt request =
     (if \<not> are_modalities_compatible rt (acceptedOutputModes (params request))
              SUPPORTED_CONTENT_TYPES
      then Some (IncompatibleTypesError (req_id request))
      else None)"

text \<open>
  \<open>_update_store\<close>: look the task up (\<open>KeyError\<close> becomes \<open>ValueError\<close>), replace its
  status, extend its artifact list. The result pairs what the call returns or raises with
  the store it leaves behind.
\<close>

definition update_store ::
  "task_store \<Rightarrow> string \<Rightarrow> task_status \<Rightarrow> artifact list option \<Rightarrow> (exn + task) \<times> task_store" where
  "update_store tasks tid st new_artifacts =
     (case tasks tid of
        None \<Rightarrow> (Inl (Raise ValueError (''Task '' @ tid @ '' not found'')), tasks)
      | Some t \<Rightarrow>
          (let t1 = t\<lparr>status := st\<rparr>;
               t2 = (case new_artifacts of
                       None \<Rightarrow> t1
                     | Some new \<Rightarrow>
                         t1\<lparr>artifacts :=
                              Some ((case artifacts t1 of None \<Rightarrow> [] | Some old \<Rightarrow> old) @ new)\<rparr>)
           in (Inr t2, tasks(tid \<mapsto> t2))))"

text \<open>
  \<open>asyncio.run(coro)\<close> refuses to start when an event loop is already running in the
  thread: it raises \<open>RuntimeError\<close> and the coroutine never runs.
\<close>

definition asyncio_run ::
  "runtime \<Rightarrow> (task_store \<Rightarrow> (exn + task) \<times> task_store) \<Rightarrow> task_store \<Rightarrow> (exn + task) \<times> task_store" where
  "asyncio_run rt coro tasks =
     (if loop_running rt
      then (Inl (Raise RuntimeError ''asyncio.run() cannot be called from a running event loop''),
            tasks)
      else coro tasks)"

text \<open>
  \<open>_create_error_response\<close>: a synchronous method that runs the store update through
  \<open>asyncio.run\<close> and turns any \<open>Exception\<close> of that into \<open>ValueError(error_msg)\<close>.
\<close>

definition create_error_response ::
  "runtime \<Rightarrow> task_store \<Rightarrow> string \<Rightarrow> string \<Rightarrow> string
     \<Rightarrow> (exn + send_task_response) \<times> task_store" where
  "create_error_response rt tasks request_id tid error_msg =
     (let ps = [TextPart error_msg] in
      case asyncio_run rt
             (\<lambda>s. update_store s tid
                     \<lparr>state = COMPLETED, status_message = Some \<lparr>role = ''agent'', parts = ps\<rparr>\<rparr>
                     (Some [Artifact ps]))
             tasks of
        (Inr t, tasks') \<Rightarrow> (Inr (SendTaskResponse request_id t), tasks')
      | (Inl e, tasks') \<Rightarrow>
          (if is_Exception e then (Inl (Raise ValueError error_msg), tasks')
           else (Inl e, tasks')))"

text \<open>
  \<open>_get_user_query\<close>: \<open>parts[0]\<close> raises \<open>IndexError\<close> on an empty list; a first part
  that is not a \<open>TextPart\<close> raises \<open>ValueError\<close>.
\<close>

definition get_user_query :: "task_send_params \<Rightarrow> exn + string" where
  "get_user_query p =
     (case parts (tsp_message p) of
        [] \<Rightarrow> Inl (Raise IndexError ''list index out of range'')
      | TextPart t # rest \<Rightarrow> Inr t
      | other # rest \<Rightarrow> Inl (Raise ValueError ''Only text parts are supported''))"

text \<open>
  \<open>asyncio.wait_for(self.agent.invoke(query, sessionId), timeout=BLOCKCHAIN_TIMEOUT)\<close>:
  it needs a running loop, passes on what the agent returns or raises, and raises
  \<open>TimeoutError\<close> when the agent does not finish within the bound.
\<close>

definition wait_for :: "runtime \<Rightarrow> agent_outcome \<Rightarrow> exn + py_value" where
  "wait_for rt outcome =
     (if \<not> loop_running rt then Inl (Raise RuntimeError ''no running event loop'')
      else (case outcome of
              Returns v \<Rightarrow> Inr v
            | Raises e \<Rightarrow> Inl e
            | Hangs \<Rightarrow> Inl (Raise TimeoutError [])))"

text \<open>
  The classification block of \<open>_invoke\<close>. \<open>looks_structured\<close> is the condition
  \<open>isinstance(result, (dict, list)) or result.startswith("{") or result.startswith("[")\<close>;
  a value that is neither a container nor a string has no \<open>startswith\<close>, and the
  \<open>AttributeError\<close> names its type (the class of an object is not part of the model and
  reads \<open>object\<close>).
\<close>

fun type_name :: "py_value \<Rightarrow> string" where
  "type_name PNone = ''NoneType''"
| "type_name (PBool b) = ''bool''"
| "type_name (PInt i) = ''int''"
| "type_name (PFloat m e) = ''float''"
| "type_name (PStr s) = ''str''"
| "type_name (PList xs) = ''list''"
| "type_name (PDict d) = ''dict''"
| "type_name (PObj d t s) = ''object''"

definition quoted :: "string \<Rightarrow> string" where
  "quoted s = CHR 0x27 # s @ [CHR 0x27]"

definition no_attribute :: "py_value \<Rightarrow> string \<Rightarrow> exn" where
  "no_attribute v name =
     Raise AttributeError (quoted (type_name v) @ '' object has no attribute '' @ quoted name)"

definition looks_structured :: "py_value \<Rightarrow> exn + bool" where
  "looks_structured v =
     (if is_dict_or_list v then Inr True
      else (case v of
              PStr s \<Rightarrow> Inr (prefix ''{'' s \<or> prefix ''['' s)
            | other \<Rightarrow> Inl (no_attribute v ''startswith'')))"

definition classify_try :: "runtime \<Rightarrow> py_value \<Rightarrow> exn + part list" where
  "classify_try rt v =
     (case looks_structured v of
        Inl e \<Rightarrow> Inl e
      | Inr True \<Rightarrow>
          (case (case v of
                   PStr s \<Rightarrow> (case json_loads rt s of
                                Some j \<Rightarrow> Inr j
                              | None \<Rightarrow> json_loads_dumps v)
                 | other \<Rightarrow> json_loads_dumps v) of
             Inl e \<Rightarrow> Inl e
           | Inr json_result \<Rightarrow> Inr [DataPart json_result])
      | Inr False \<Rightarrow> Inr [TextPart (case v of PStr s \<Rightarrow> s | other \<Rightarrow> py_str rt other)])"

definition classify :: "runtime \<Rightarrow> py_value \<Rightarrow> exn + part list" where
  "classify rt v =
     (case classify_try rt v of
        Inl e \<Rightarrow> (if kind e = JSONDecodeError \<or> kind e = TypeError
                  then Inr [TextPart (py_str rt v)] else Inl e)
      | Inr ps \<Rightarrow> Inr ps)"

definition task_state_of :: "runtime \<Rightarrow> py_value \<Rightarrow> task_state" where
  "task_state_of rt v =
     (if sublist ''MISSING_INFO:'' (py_str rt v) then INPUT_REQUIRED else COMPLETED)"

definition timeout_message :: string where
  "timeout_message =
     ''Timeout waiting for response from blockchain after '' @ str_int BLOCKCHAIN_TIMEOUT
       @ '' seconds''"

text \<open>The body of the inner \<open>try\<close> of \<open>_invoke\<close>.\<close>

definition invoke_inner ::
  "runtime \<Rightarrow> task_store \<Rightarrow> send_task_request \<Rightarrow> string
     \<Rightarrow> (exn + send_task_response) \<times> task_store" where
  "invoke_inner rt tasks request query =
     (let p = params request in
      case wait_for rt (agent_invoke rt query (sessionId p)) of
        Inl e \<Rightarrow> (Inl e, tasks)
      | Inr v \<Rightarrow>
          (if v = PNone then (Inl (Raise ValueError ''No response received from agent''), tasks)
           else (case classify rt v of
                   Inl e \<Rightarrow> (Inl e, tasks)
                 | Inr ps \<Rightarrow>
                     (case update_store tasks (tsp_id p)
                             \<lparr>state = task_state_of rt v,
                              status_message = Some \<lparr>role = ''agent'', parts = ps\<rparr>\<rparr>
                             (Some [Artifact ps]) of
                        (Inl e, tasks') \<Rightarrow> (Inl e, tasks')
                      | (Inr t, tasks') \<Rightarrow> (Inr (SendTaskResponse (req_id request) t), tasks')))))"

text \<open>The outer \<open>try\<close> body: the inner \<open>try\<close> with its \<open>except asyncio.TimeoutError\<close>.\<close>

definition invoke_outer ::
  "runtime \<Rightarrow> task_store \<Rightarrow> send_task_request \<Rightarrow> string
     \<Rightarrow> (exn + send_task_response) \<times> task_store" where
  "invoke_outer rt tasks request query =
     (case invoke_inner rt tasks request query of
        (Inl e, tasks') \<Rightarrow>
          (if kind e = TimeoutError
           then create_error_response rt tasks' (req_id request) (tsp_id (params request))
                  timeout_message
           else (Inl e, tasks'))
      | (Inr r, tasks') \<Rightarrow> (Inr r, tasks'))"

text \<open>\<open>_invoke\<close>: the query is extracted before the \<open>try\<close>; \<open>except Exception\<close> closes it.\<close>

definition AgentTaskManager_invoke ::
  "runtime \<Rightarrow> task_store \<Rightarrow> send_task_request \<Rightarrow> (exn + send_task_response) \<times> task_store" where
  "AgentTaskManager_invoke rt tasks request =
     (case get_user_query (params request) of
        Inl e \<Rightarrow> (Inl e, tasks)
      | Inr query \<Rightarrow>
          (case invoke_outer rt tasks request query of
             (Inl e, tasks') \<Rightarrow>
               (if is_Exception e
                then create_error_response rt tasks' (req_id request) (tsp_id (params request))
                       (''Error invoking agent: '' @ str_exn e)
                else (Inl e, tasks'))
           | (Inr r, tasks') \<Rightarrow> (Inr r, tasks')))"

definition on_send_task ::
  "runtime \<Rightarrow> task_store \<Rightarrow> send_task_request \<Rightarrow> (exn + send_task_response) \<times> task_store" where
  "on_send_task rt tasks request =
     (case validate_request rt request of
        Some error \<Rightarrow> (Inr error, tasks)
      | None \<Rightarrow> AgentTaskManager_invoke rt (upsert_task rt tasks (params request)) request)"

section \<open>The agent wrapper (\<open>agent.py\<close>)\<close>

text \<open>
  The events of the agent runtime, as \<open>invoke\<close> reads them: an event may have a content,
  a content may have parts, and a part may carry a text, a tool call and a tool response.
  An attribute that is absent or \<open>None\<close> is \<open>None\<close> here.
\<close>

record function_call =
  fc_name :: string
  fc_args :: py_value

record function_response =
  response :: py_value

record genai_part =
  part_text :: "string option"
  part_function_call :: "function_call option"
  part_function_response :: "function_response option"

record event_content =
  content_parts :: "genai_part list option"

record event =
  content :: "event_content option"

text \<open>
  The \<open>try\<close> around the serialisation of a tool response: a dictionary, a list or an object
  with \<open>__dict__\<close> or \<open>to_dict\<close> goes through \<open>json.dumps\<close> with \<open>custom_serializer\<close>,
  anything else through \<open>str\<close>; an exception of the serialisation (\<open>json.dumps\<close> raises
  subclasses of \<open>Exception\<close> only) gives the string form behind \<open>Response: \<close>.
\<close>

fun has_dict_or_to_dict :: "py_value \<Rightarrow> bool" where
  "has_dict_or_to_dict (PObj d t s) = (d \<noteq> None \<or> t \<noteq> None)"
| "has_dict_or_to_dict v = False"

definition tool_response_string :: "runtime \<Rightarrow> py_value \<Rightarrow> string" where
  "tool_response_string rt final_response =
     (case (if is_dict_or_list final_response then json_dumps rt final_response
            else if has_dict_or_to_dict final_response then json_dumps rt final_response
            else Inr (py_str rt final_response)) of
        Inr s \<Rightarrow> s
      | Inl e \<Rightarrow> ''Response: '' @ py_str rt final_response)"

text \<open>
  The loop over the parts of one event. \<open>Inl s\<close>: a tool response was met and \<open>invoke\<close>
  returns \<open>s\<close>; \<open>Inr t\<close>: the parts are exhausted and \<open>last_text_response\<close> is \<open>t\<close>.
  A tool call is only printed.
\<close>

fun consume_parts :: "runtime \<Rightarrow> genai_part list \<Rightarrow> string option \<Rightarrow> string + string option" where
  "consume_parts rt [] last_text = Inr last_text"
| "consume_parts rt (p # ps) last_text =
     (case part_function_response p of
        Some fr \<Rightarrow> Inl (tool_response_string rt (response fr))
      | None \<Rightarrow>
          (case part_text p of
             Some t \<Rightarrow> (if t \<noteq> [] then consume_parts rt ps (Some t)
                        else consume_parts rt ps last_text)
           | None \<Rightarrow> consume_parts rt ps last_text))"

definition event_parts :: "event \<Rightarrow> genai_part list" where
  "event_parts ev =
     (case content ev of
        None \<Rightarrow> []
      | Some c \<Rightarrow> (case content_parts c of None \<Rightarrow> [] | Some ps \<Rightarrow> ps))"

text \<open>
  The \<open>async for\<close> over the event stream. The stream is the list of what the generator
  does at each step: it yields an event (\<open>Inr\<close>) or raises (\<open>Inl\<close>); the end of the list
  is the end of the stream.
\<close>

fun consume_events :: "runtime \<Rightarrow> (exn + event) list \<Rightarrow> string option \<Rightarrow> exn + string" where
  "consume_events rt [] last_text =
     (case last_text of
        Some t \<Rightarrow> Inr (if t \<noteq> [] then t else ''No usable response received'')
      | None \<Rightarrow> Inr ''No usable response received'')"
| "consume_events rt (Inl e # rest) last_text = Inl e"
| "consume_events rt (Inr ev # rest) last_text =
     (if event_parts ev \<noteq> []
      then (case consume_parts rt (event_parts ev) last_text of
              Inl s \<Rightarrow> Inr s
            | Inr last_text' \<Rightarrow> consume_events rt rest last_text')
      else consume_events rt rest last_text)"

text \<open>
  \<open>Web3Agent.invoke\<close>, from the check that the agent is initialised on; the session
  lookup and \<open>run_async\<close> belong to the agent runtime and only supply the stream.
\<close>

definition Web3Agent_invoke :: "runtime \<Rightarrow> bool \<Rightarrow> (exn + event) list \<Rightarrow> exn + string" where
  "Web3Agent_invoke rt initialized events_async =
     (if \<not> initialized
      then Inl (Raise RuntimeError ''Agent not initialized. Call initialize() first.'')
      else (case consume_events rt events_async None of
              Inl e \<Rightarrow>
                (if kind e = TimeoutError then Inr ''Query timed out''
                 else if is_Exception e then Inr (''Error: '' @ str_exn e)
                 else Inl e)
            | Inr s \<Rightarrow> Inr s))"

section \<open>The schema normaliser (\<open>utils.py\<close>)\<close>

text \<open>
  A schema is a Python value built from dictionaries and lists. The functions of
  \<open>utils.py\<close> change it in place and return nothing; here each returns the changed
  value. The embedding is for schemas that are trees (no dictionary or list reachable
  along two paths), as parsed JSON is.
\<close>

record schema_fix_options =
  convert_type_arrays_to :: string
  validate_api_key :: bool
  verbose :: bool
  aggressive :: bool

definition SchemaFixOptions_default :: schema_fix_options where
  "SchemaFixOptions_default =
     \<lparr>convert_type_arrays_to = ''string'', validate_api_key = True, verbose = False,
      aggressive = True\<rparr>"

text \<open>
  Dictionary access with a string key: \<open>obj.get(k)\<close>, and \<open>obj[k] = v\<close>, which replaces the
  value of a key that is present and appends a new key at the end.
\<close>

definition dict_get :: "(py_key \<times> py_value) list \<Rightarrow> string \<Rightarrow> py_value option" where
  "dict_get d k = map_of d (KStr k)"

definition dict_set :: "(py_key \<times> py_value) list \<Rightarrow> string \<Rightarrow> py_value \<Rightarrow> (py_key \<times> py_value) list" where
  "dict_set d k v = AList.update (KStr k) v d"

text \<open>
  The test \<open>obj.get('type') == 'array' and 'items' not in obj\<close> and the repair
  \<open>obj['items'] = {'type': 'string'}\<close>, which \<open>fix_openai_validation_errors\<close> applies to
  the object itself and to \<open>properties.args\<close>.
\<close>

definition default_items :: py_value where
  "default_items = PDict [(KStr ''type'', PStr ''string'')]"

definition needs_items :: "(py_key \<times> py_value) list \<Rightarrow> bool" where
  "needs_items d = (dict_get d ''type'' = Some (PStr ''array'') \<and> dict_get d ''items'' = None)"

definition add_default_items :: "(py_key \<times> py_value) list \<Rightarrow> (py_key \<times> py_value) list" where
  "add_default_items d = (if needs_items d then dict_set d ''items'' default_items else d)"

definition fix_args :: "(py_key \<times> py_value) list \<Rightarrow> (py_key \<times> py_value) list" where
  "fix_args props =
     (case dict_get props ''args'' of
        Some (PDict args_prop) \<Rightarrow> dict_set props ''args'' (PDict (add_default_items args_prop))
      | _ \<Rightarrow> props)"

text \<open>
  The loops of the two functions: over the values of a dictionary, and the guards
  \<open>isinstance(value, dict)\<close> and \<open>isinstance(v, (dict, list))\<close> in front of a recursive call.
  \<open>fix_properties\<close> is the block on \<open>obj['properties']\<close>: the \<open>args\<close> repair, then the loop
  over the properties; \<open>on_nested\<close> is the body of the last loop of
  \<open>fix_openai_validation_errors\<close>, which descends into a dictionary and into the
  dictionaries that are items of a list.
\<close>

definition map_values :: "(py_value \<Rightarrow> py_value) \<Rightarrow> (py_key \<times> py_value) list \<Rightarrow> (py_key \<times> py_value) list" where
  "map_values f d = map (\<lambda>(k, v). (k, f v)) d"

definition on_dict :: "(py_value \<Rightarrow> py_value) \<Rightarrow> py_value \<Rightarrow> py_value" where
  "on_dict f v = (case v of PDict d \<Rightarrow> f v | _ \<Rightarrow> v)"

definition on_dict_or_list :: "(py_value \<Rightarrow> py_value) \<Rightarrow> py_value \<Rightarrow> py_value" where
  "on_dict_or_list f v = (if is_dict_or_list v then f v else v)"

definition fix_properties :: "(py_value \<Rightarrow> py_value) \<Rightarrow> (py_key \<times> py_value) list \<Rightarrow> (py_key \<times> py_value) list" where
  "fix_properties f d =
     (case dict_get d ''properties'' of
        Some (PDict props) \<Rightarrow>
          dict_set d ''properties'' (PDict (map_values (on_dict f) (fix_args props)))
      | _ \<Rightarrow> d)"

definition on_nested :: "(py_value \<Rightarrow> py_value) \<Rightarrow> py_value \<Rightarrow> py_value" where
  "on_nested f v =
     (case v of
        PDict d \<Rightarrow> f v
      | PList items \<Rightarrow> PList (map (on_dict f) items)
      | _ \<Rightarrow> v)"

text \<open>
  The size that the recursion descends on: one for every dictionary and list of the
  schema, and one more for a dictionary that is still due its default \<open>items\<close>, so that
  adding them does not change the size.
\<close>

fun weight :: "py_value \<Rightarrow> nat"
  and weight_list :: "py_value list \<Rightarrow> nat"
  and weight_items :: "(py_key \<times> py_value) list \<Rightarrow> nat" where
  "weight (PDict d) = Suc (weight_items d + (if needs_items d then 1 else 0))"
| "weight (PList xs) = Suc (weight_list xs)"
| "weight v = 0"
| "weight_list [] = 0"
| "weight_list (x # xs) = weight x + weight_list xs"
| "weight_items [] = 0"
| "weight_items ((k, v) # kvs) = weight v + weight_items kvs"

definition dict_weight :: "(py_key \<times> py_value) list \<Rightarrow> nat" where
  "dict_weight d = weight_items d + (if needs_items d then 1 else 0)"

text \<open>
  \<open>fix_openai_validation_errors\<close> calls itself on values it has already changed (the
  properties are visited by the \<open>properties\<close> block and again by the last loop), so the
  depth of the recursion is made explicit: \<open>fix_openai_fuel n\<close> recurses at most \<open>n\<close> deep,
  and the function itself runs with the size of its argument, which always suffices
  (\<open>fix_openai_validation_errors_simps\<close> below gives the recursion of the source back).
\<close>

primrec fix_openai_fuel :: "nat \<Rightarrow> py_value \<Rightarrow> py_value" where
  "fix_openai_fuel 0 obj = obj"
| "fix_openai_fuel (Suc n) obj =
     (case obj of
        PDict d \<Rightarrow>
          PDict (map_values (on_nested (fix_openai_fuel n))
                   (fix_properties (fix_openai_fuel n) (add_default_items d)))
      | _ \<Rightarrow> obj)"

definition fix_openai_validation_errors :: "py_value \<Rightarrow> py_value" where
  "fix_openai_validation_errors obj = fix_openai_fuel (weight obj) obj"

text \<open>
  What \<open>fix_schema_types_recursive\<close> does to one dictionary before it descends: the
  \<open>fix_openai_validation_errors\<close> pass, a list-valued \<open>type\<close> replaced by
  \<open>options.convert_type_arrays_to\<close>, and in aggressive mode the members of a list-valued
  \<open>enum\<close> turned into strings and the default \<open>items\<close> added to an array without them.
  A call without options runs with \<open>SchemaFixOptions_default\<close>.
\<close>

fun dict_items :: "py_value \<Rightarrow> (py_key \<times> py_value) list" where
  "dict_items (PDict d) = d"
| "dict_items v = []"

definition coerce_type :: "schema_fix_options \<Rightarrow> (py_key \<times> py_value) list \<Rightarrow> (py_key \<times> py_value) list" where
  "coerce_type options d =
     (case dict_get d ''type'' of
        Some (PList ts) \<Rightarrow> dict_set d ''type'' (PStr (convert_type_arrays_to options))
      | _ \<Rightarrow> d)"

definition stringify :: "runtime \<Rightarrow> py_value \<Rightarrow> py_value" where
  "stringify rt val = (case val of PStr s \<Rightarrow> val | _ \<Rightarrow> PStr (py_str rt val))"

definition coerce_enum :: "runtime \<Rightarrow> schema_fix_options \<Rightarrow> (py_key \<times> py_value) list \<Rightarrow> (py_key \<times> py_value) list" where
  "coerce_enum rt options d =
     (if aggressive options
      then (case dict_get d ''enum'' of
              Some (PList vals) \<Rightarrow> dict_set d ''enum'' (PList (map (stringify rt) vals))
            | _ \<Rightarrow> d)
      else d)"

definition add_items_aggressive :: "schema_fix_options \<Rightarrow> (py_key \<times> py_value) list \<Rightarrow> (py_key \<times> py_value) list" where
  "add_items_aggressive options d =
     (if aggressive options \<and> needs_items d then dict_set d ''items'' default_items else d)"

definition fix_node :: "runtime \<Rightarrow> schema_fix_options \<Rightarrow> (py_key \<times> py_value) list \<Rightarrow> (py_key \<times> py_value) list" where
  "fix_node rt options d =
     add_items_aggressive options
       (coerce_enum rt options
          (coerce_type options (dict_items (fix_openai_validation_errors (PDict d)))))"

subsection \<open>The size does not grow: facts for the termination proof\<close>

lemma weight_PDict [simp]: "weight (PDict d) = Suc (dict_weight d)"
  by (simp add: dict_weight_def)

declare weight.simps(1) [simp del]

lemma weight_items_append [simp]: "weight_items (d @ e) = weight_items d + weight_items e"
  by (induction d) auto

lemma weight_items_mem: "(k, v) \<in> set d \<Longrightarrow> weight v \<le> weight_items d"
  by (induction d) auto

lemma weight_list_mem: "x \<in> set xs \<Longrightarrow> weight x \<le> weight_list xs"
  by (induction xs) auto

lemma weight_items_update:
  "map_of d k = Some v \<Longrightarrow> weight_items (AList.update k v' d) + weight v = weight_items d + weight v'"
  by (induction d) (auto split: if_splits)

lemma weight_items_update_new:
  "map_of d k = None \<Longrightarrow> weight_items (AList.update k v' d) = weight_items d + weight v'"
  by (induction d) (auto split: if_splits)

lemma dict_get_set: "dict_get (dict_set d k v) k' = (if k' = k then Some v else dict_get d k')"
  by (simp add: dict_get_def dict_set_def update_conv')

lemma dict_get_map_values: "dict_get (map_values f d) k = map_option f (dict_get d k)"
  by (induction d) (auto simp: dict_get_def map_values_def)

lemma dict_get_mem: "dict_get d k = Some v \<Longrightarrow> (KStr k, v) \<in> set d"
  by (simp add: dict_get_def map_of_SomeD)

lemma weight_default_items [simp]: "weight default_items = 1"
  by (simp add: default_items_def dict_weight_def needs_items_def dict_get_def)

lemma weight_items_dict_set_new:
  "dict_get d k = None \<Longrightarrow> weight_items (dict_set d k v) = weight_items d + weight v"
  by (simp add: dict_get_def dict_set_def weight_items_update_new)

lemma weight_items_dict_set:
  "dict_get d k = Some v \<Longrightarrow> weight v' = weight v \<Longrightarrow>
   weight_items (dict_set d k v') = weight_items d"
  using weight_items_update[of d "KStr k" v v'] by (simp add: dict_get_def dict_set_def)

lemma needs_items_add_default_items [simp]: "\<not> needs_items (add_default_items d)"
  by (simp add: add_default_items_def needs_items_def dict_get_set)

lemma weight_add_default_items [simp]:
  "dict_weight (add_default_items d) = dict_weight d"
proof (cases "needs_items d")
  case True
  then have "dict_get d ''items'' = None" by (simp add: needs_items_def)
  then have "weight_items (dict_set d ''items'' default_items) = weight_items d + 1"
    by (simp add: weight_items_dict_set_new)
  moreover have "\<not> needs_items (dict_set d ''items'' default_items)"
    by (simp add: needs_items_def dict_get_set)
  ultimately show ?thesis using True by (simp add: add_default_items_def dict_weight_def)
next
  case False
  then show ?thesis by (simp add: add_default_items_def)
qed

lemma needs_items_dict_set_other:
  "k \<noteq> ''type'' \<Longrightarrow> k \<noteq> ''items'' \<Longrightarrow> needs_items (dict_set d k v) = needs_items d"
  by (simp add: needs_items_def dict_get_set)

text \<open>
  A function on values keeps strings when it maps strings to themselves and nothing else
  to a string; the repairs do, so they never change whether a \<open>type\<close> is \<open>array\<close>.
\<close>

definition keeps_strings :: "(py_value \<Rightarrow> py_value) \<Rightarrow> bool" where
  "keeps_strings f = (\<forall>v s. (f v = PStr s) = (v = PStr s))"

lemma needs_items_map_values:
  "keeps_strings f \<Longrightarrow> needs_items (map_values f d) = needs_items d"
  by (auto simp: needs_items_def dict_get_map_values keeps_strings_def)

lemma weight_items_map_values:
  "(\<And>k v. (k, v) \<in> set d \<Longrightarrow> weight (f v) = weight v) \<Longrightarrow>
   weight_items (map_values f d) = weight_items d"
proof (induction d)
  case Nil
  then show ?case by (simp add: map_values_def)
next
  case (Cons kv d)
  obtain k v where kv: "kv = (k, v)" by (cases kv)
  have "weight_items (map_values f d) = weight_items d"
    using Cons.prems by (intro Cons.IH) auto
  moreover have "weight (f v) = weight v" using Cons.prems[of k v] kv by simp
  ultimately show ?case using kv by (simp add: map_values_def)
qed

lemma weight_list_map:
  "(\<And>x. x \<in> set xs \<Longrightarrow> weight (f x) = weight x) \<Longrightarrow> weight_list (map f xs) = weight_list xs"
  by (induction xs) auto

lemma weight_fix_args [simp]: "dict_weight (fix_args props) = dict_weight props"
proof (cases "\<exists>a. dict_get props ''args'' = Some (PDict a)")
  case True
  then obtain a where a: "dict_get props ''args'' = Some (PDict a)" by blast
  have "weight_items (dict_set props ''args'' (PDict (add_default_items a))) = weight_items props"
    using weight_items_dict_set[OF a, of "PDict (add_default_items a)"] by simp
  with a show ?thesis
    by (simp add: fix_args_def needs_items_dict_set_other dict_weight_def)
next
  case False
  then show ?thesis
    by (auto simp: fix_args_def split: option.splits py_value.splits)
qed

lemma weight_fix_properties:
  assumes "\<And>props k v. dict_get d ''properties'' = Some (PDict props) \<Longrightarrow>
             (k, v) \<in> set (fix_args props) \<Longrightarrow> weight (f v) = weight v"
    and "keeps_strings f"
  shows "dict_weight (fix_properties f d) = dict_weight d"
proof (cases "\<exists>props. dict_get d ''properties'' = Some (PDict props)")
  case True
  then obtain props where p: "dict_get d ''properties'' = Some (PDict props)" by blast
  have ks: "keeps_strings (on_dict f)"
    using assms(2) by (auto simp: keeps_strings_def on_dict_def split: py_value.splits)
  have "weight_items (map_values (on_dict f) (fix_args props)) = weight_items (fix_args props)"
    by (rule weight_items_map_values)
       (auto simp: on_dict_def assms(1)[OF p] split: py_value.splits)
  then have "dict_weight (map_values (on_dict f) (fix_args props)) = dict_weight props"
    using weight_fix_args[of props] by (simp add: needs_items_map_values[OF ks] dict_weight_def)
  then have "weight_items (dict_set d ''properties''
                (PDict (map_values (on_dict f) (fix_args props)))) = weight_items d"
    using weight_items_dict_set[OF p, of "PDict (map_values (on_dict f) (fix_args props))"]
    by simp
  with p show ?thesis
    by (simp add: fix_properties_def needs_items_dict_set_other dict_weight_def)
next
  case False
  then show ?thesis
    by (auto simp: fix_properties_def split: option.splits py_value.splits)
qed

lemma keeps_strings_fuel [simp]: "keeps_strings (fix_openai_fuel n)"
  by (cases n) (auto simp: keeps_strings_def split: py_value.splits)

lemma keeps_strings_on_nested: "keeps_strings f \<Longrightarrow> keeps_strings (on_nested f)"
  by (auto simp: keeps_strings_def on_nested_def split: py_value.splits)

lemma weight_on_nested:
  assumes "\<And>d. v = PDict d \<Longrightarrow> weight (f v) = weight v"
    and "\<And>xs x. v = PList xs \<Longrightarrow> x \<in> set xs \<Longrightarrow> weight (f x) = weight x"
  shows "weight (on_nested f v) = weight v"
proof (cases v)
  case (PList xs)
  have "weight_list (map (on_dict f) xs) = weight_list xs"
    by (rule weight_list_map) (auto simp: on_dict_def assms(2)[OF PList] split: py_value.splits)
  with PList show ?thesis by (simp add: on_nested_def)
qed (use assms(1) in \<open>auto simp: on_nested_def\<close>)

lemma weight_fuel [simp]: "weight (fix_openai_fuel n x) = weight x"
proof (induction n arbitrary: x)
  case 0
  then show ?case by simp
next
  case (Suc n)
  show ?case
  proof (cases x)
    case (PDict d)
    let ?F = "fix_openai_fuel n"
    let ?d2 = "fix_properties ?F (add_default_items d)"
    have a: "dict_weight ?d2 = dict_weight d"
      using weight_fix_properties[of "add_default_items d" ?F] Suc.IH by simp
    have "weight_items (map_values (on_nested ?F) ?d2) = weight_items ?d2"
      by (rule weight_items_map_values) (simp add: weight_on_nested Suc.IH)
    moreover have "needs_items (map_values (on_nested ?F) ?d2) = needs_items ?d2"
      by (simp add: needs_items_map_values keeps_strings_on_nested)
    ultimately have "dict_weight (map_values (on_nested ?F) ?d2) = dict_weight ?d2"
      by (simp add: dict_weight_def)
    with a PDict show ?thesis by simp
  qed simp_all
qed

lemma weight_fix_openai [simp]: "weight (fix_openai_validation_errors x) = weight x"
  by (simp add: fix_openai_validation_errors_def)

lemma weight_value_less: "(k, v) \<in> set d \<Longrightarrow> weight v < weight (PDict d)"
  using weight_items_mem[of k v d] by (simp add: dict_weight_def)

lemma dict_weight_coerce_type: "dict_weight (coerce_type options d) \<le> dict_weight d"
proof (cases "\<exists>ts. dict_get d ''type'' = Some (PList ts)")
  case True
  then obtain ts where t: "dict_get d ''type'' = Some (PList ts)" by blast
  have "weight_items (dict_set d ''type'' (PStr (convert_type_arrays_to options))) + weight (PList ts)
        = weight_items d + weight (PStr (convert_type_arrays_to options))"
    using weight_items_update[of d "KStr ''type''" "PList ts"] t
    by (simp add: dict_get_def dict_set_def)
  moreover have "\<not> needs_items d" using t by (simp add: needs_items_def)
  ultimately show ?thesis using t by (simp add: coerce_type_def dict_weight_def)
next
  case False
  then show ?thesis by (auto simp: coerce_type_def split: option.splits py_value.splits)
qed

lemma weight_list_stringify: "weight_list (map (stringify rt) vals) \<le> weight_list vals"
  by (induction vals) (auto simp: stringify_def split: py_value.splits)

lemma dict_weight_coerce_enum: "dict_weight (coerce_enum rt options d) \<le> dict_weight d"
proof (cases "aggressive options \<and> (\<exists>vals. dict_get d ''enum'' = Some (PList vals))")
  case True
  then obtain vals where e: "dict_get d ''enum'' = Some (PList vals)" by blast
  have "weight_items (dict_set d ''enum'' (PList (map (stringify rt) vals))) + weight (PList vals)
        = weight_items d + weight (PList (map (stringify rt) vals))"
    using weight_items_update[of d "KStr ''enum''" "PList vals"] e
    by (simp add: dict_get_def dict_set_def)
  with weight_list_stringify[of rt vals] e True show ?thesis
    by (simp add: coerce_enum_def dict_weight_def needs_items_dict_set_other)
next
  case False
  then show ?thesis by (auto simp: coerce_enum_def split: option.splits py_value.splits)
qed

lemma dict_weight_add_items_aggressive [simp]:
  "dict_weight (add_items_aggressive options d) = dict_weight d"
  using weight_add_default_items[of d]
  by (auto simp: add_items_aggressive_def add_default_items_def)

lemma fix_openai_PDict: "\<exists>d'. fix_openai_validation_errors (PDict d) = PDict d'"
  by (simp add: fix_openai_validation_errors_def)

lemma dict_weight_fix_node: "dict_weight (fix_node rt options d) \<le> dict_weight d"
proof -
  obtain d' where d': "fix_openai_validation_errors (PDict d) = PDict d'"
    using fix_openai_PDict by blast
  have "weight (PDict d') = weight (PDict d)" using weight_fix_openai[of "PDict d"] d' by simp
  then have "dict_weight d' = dict_weight d" by simp
  with dict_weight_coerce_type[of options d']
    dict_weight_coerce_enum[of rt options "coerce_type options d'"] d'
  show ?thesis by (simp add: fix_node_def)
qed

lemma fix_node_value_less:
  "(k, v) \<in> set (fix_node rt options d) \<Longrightarrow> weight v < Suc (dict_weight d)"
  using weight_value_less[of k v "fix_node rt options d"] dict_weight_fix_node[of rt options d]
  by simp

lemma list_item_less: "x \<in> set xs \<Longrightarrow> weight x < Suc (weight_list xs)"
  using weight_list_mem[of x xs] by simp

lemma map_values_fundef_cong [fundef_cong]:
  "d = d' \<Longrightarrow> (\<And>k v. (k, v) \<in> set d' \<Longrightarrow> f v = g v) \<Longrightarrow> map_values f d = map_values g d'"
  by (auto simp: map_values_def)

lemma on_dict_or_list_cong [fundef_cong]:
  "v = v' \<Longrightarrow> (is_dict_or_list v' \<Longrightarrow> f v' = g v') \<Longrightarrow> on_dict_or_list f v = on_dict_or_list g v'"
  by (auto simp: on_dict_or_list_def)

subsection \<open>\<open>fix_schema_types_recursive\<close>\<close>

function fix_schema_types_recursive :: "runtime \<Rightarrow> schema_fix_options \<Rightarrow> py_value \<Rightarrow> py_value" where
  "fix_schema_types_recursive rt options (PDict d) =
     PDict (map_values (on_dict_or_list (fix_schema_types_recursive rt options))
              (fix_node rt options d))"
| "fix_schema_types_recursive rt options (PList xs) =
     PList (map (on_dict_or_list (fix_schema_types_recursive rt options)) xs)"
| "fix_schema_types_recursive rt options PNone = PNone"
| "fix_schema_types_recursive rt options (PBool b) = PBool b"
| "fix_schema_types_recursive rt options (PInt i) = PInt i"
| "fix_schema_types_recursive rt options (PFloat m e) = PFloat m e"
| "fix_schema_types_recursive rt options (PStr s) = PStr s"
| "fix_schema_types_recursive rt options (PObj a t c) = PObj a t c"
  by pat_completeness auto
termination
  by (relation "measure (\<lambda>(rt, options, obj). weight obj)")
     (auto simp: fix_node_value_less list_item_less)

section \<open>Notions the properties are stated with, and sample inputs\<close>

subsection \<open>Task manager\<close>

text \<open>
  The artifacts of a task as a list, and the one change \<open>_update_store\<close> makes to a task
  when \<open>_invoke\<close> or \<open>_create_error_response\<close> calls it: the status replaced, one artifact
  with the same parts appended.
\<close>

definition artifact_list :: "task \<Rightarrow> artifact list" where
  "artifact_list t = (case artifacts t of None \<Rightarrow> [] | Some xs \<Rightarrow> xs)"

definition task_update :: "task \<Rightarrow> task_state \<Rightarrow> part list \<Rightarrow> task" where
  "task_update t st ps =
     t\<lparr>status := \<lparr>state = st, status_message = Some \<lparr>role = ''agent'', parts = ps\<rparr>\<rparr>,
       artifacts := Some (artifact_list t @ [Artifact ps])\<rparr>"

text \<open>
  The status \<open>_create_error_response\<close> writes for a message, and whether the store update
  it runs through \<open>asyncio.run\<close> raises.
\<close>

definition error_status :: "string \<Rightarrow> task_status" where
  "error_status msg =
     \<lparr>state = COMPLETED, status_message = Some \<lparr>role = ''agent'', parts = [TextPart msg]\<rparr>\<rparr>"

definition store_update_fails :: "runtime \<Rightarrow> task_store \<Rightarrow> string \<Rightarrow> string \<Rightarrow> bool" where
  "store_update_fails rt tasks tid msg =
     isl (fst (asyncio_run rt
                 (\<lambda>s. update_store s tid (error_status msg) (Some [Artifact [TextPart msg]]))
                 tasks))"

text \<open>
  A mapping of JSON primitives: a dictionary (its keys are distinct) with string keys whose
  values are \<open>None\<close>, booleans, integers, finite floats or strings.
\<close>

fun json_primitive :: "py_value \<Rightarrow> bool" where
  "json_primitive PNone = True"
| "json_primitive (PBool b) = True"
| "json_primitive (PInt i) = True"
| "json_primitive (PFloat m e) = True"
| "json_primitive (PStr s) = True"
| "json_primitive v = False"

fun is_str_key :: "py_key \<Rightarrow> bool" where
  "is_str_key (KStr s) = True"
| "is_str_key k = False"

definition json_primitive_mapping :: "(py_key \<times> py_value) list \<Rightarrow> bool" where
  "json_primitive_mapping d =
     (distinct (map fst d) \<and> list_all (\<lambda>(k, v). is_str_key k \<and> json_primitive v) d)"

subsection \<open>Agent wrapper\<close>

text \<open>
  All parts of a list of events in arrival order, the payload of the first part that
  carries a tool response, the non-empty texts of the parts, and the value of
  \<open>last_text_response\<close> after a run of parts; the exceptions a stream raises.
\<close>

definition all_parts :: "event list \<Rightarrow> genai_part list" where
  "all_parts evs = concat (map event_parts evs)"

definition first_tool_response :: "genai_part list \<Rightarrow> py_value option" where
  "first_tool_response ps =
     (case List.find (\<lambda>p. part_function_response p \<noteq> None) ps of
        None \<Rightarrow> None
      | Some p \<Rightarrow> map_option response (part_function_response p))"

definition observed_texts :: "genai_part list \<Rightarrow> string list" where
  "observed_texts ps = filter (\<lambda>t. t \<noteq> []) (List.map_filter part_text ps)"

definition text_after :: "string option \<Rightarrow> genai_part list \<Rightarrow> string option" where
  "text_after last_text ps =
     (if observed_texts ps = [] then last_text else Some (last (observed_texts ps)))"

definition raised :: "(exn + event) list \<Rightarrow> exn list" where
  "raised stream = List.map_filter (\<lambda>x. case x of Inl e \<Rightarrow> Some e | Inr ev \<Rightarrow> None) stream"

subsection \<open>Schema normaliser\<close>

text \<open>
  A dictionary that needs none of the repairs, and a schema all of whose dictionaries are
  such.
\<close>

fun is_str :: "py_value \<Rightarrow> bool" where
  "is_str (PStr s) = True"
| "is_str v = False"

definition node_fixed :: "schema_fix_options \<Rightarrow> (py_key \<times> py_value) list \<Rightarrow> bool" where
  "node_fixed options d =
     (\<not> needs_items d \<and>
      (\<forall>ts. dict_get d ''type'' \<noteq> Some (PList ts)) \<and>
      (aggressive options \<longrightarrow>
         (\<forall>vals. dict_get d ''enum'' = Some (PList vals) \<longrightarrow> list_all is_str vals)))"

fun normal :: "schema_fix_options \<Rightarrow> py_value \<Rightarrow> bool"
  and normal_list :: "schema_fix_options \<Rightarrow> py_value list \<Rightarrow> bool"
  and normal_items :: "schema_fix_options \<Rightarrow> (py_key \<times> py_value) list \<Rightarrow> bool" where
  "normal options (PDict d) = (node_fixed options d \<and> normal_items options d)"
| "normal options (PList xs) = normal_list options xs"
| "normal options v = True"
| "normal_list options [] = True"
| "normal_list options (x # xs) = (normal options x \<and> normal_list options xs)"
| "normal_items options [] = True"
| "normal_items options ((k, v) # kvs) = (normal options v \<and> normal_items options kvs)"

subsection \<open>Sample inputs\<close>

text \<open>
  A runtime with a running event loop, as the server provides it. Its \<open>json.loads\<close> is a
  stand-in that is right on the strings used below, its compatibility test accepts a
  request that names no output mode or one the agent supports, and the agent wrapper
  behaves as the argument says.
\<close>

definition demo_json_loads :: "string \<Rightarrow> py_value option" where
  "demo_json_loads s =
     (if s = ''[1, 2]'' then Some (PList [PInt 1, PInt 2])
      else if s = ''{}'' then Some (PDict [])
      else None)"

definition demo_compatible :: "string list option \<Rightarrow> string list \<Rightarrow> bool" where
  "demo_compatible client server =
     (case client of None \<Rightarrow> True
      | Some ms \<Rightarrow> ms = [] \<or> list_ex (\<lambda>m. m \<in> set server) ms)"

definition demo_runtime :: "agent_outcome \<Rightarrow> runtime" where
  "demo_runtime outcome =
     \<lparr>loop_running = True,
      json_loads = demo_json_loads,
      json_text = (\<lambda>v. ''<json>''),
      container_repr = (\<lambda>v. ''<container>''),
      float_repr = (\<lambda>m e. ''<float>''),
      are_modalities_compatible = demo_compatible,
      initial_status = \<lparr>state = INPUT_REQUIRED, status_message = None\<rparr>,
      agent_invoke = (\<lambda>query session. outcome)\<rparr>"

text \<open>A request for task \<open>task-1\<close> with the given message parts, and a store that holds that task.\<close>

definition demo_request :: "part list \<Rightarrow> send_task_request" where
  "demo_request ps =
     \<lparr>req_id = ''req-1'',
      params = \<lparr>tsp_id = ''task-1'', sessionId = ''session-1'',
                tsp_message = \<lparr>role = ''user'', parts = ps\<rparr>,
                acceptedOutputModes = Some [''text'']\<rparr>\<rparr>"

definition demo_task :: task where
  "demo_task = \<lparr>task_id = ''task-1'',
                 status = \<lparr>state = COMPLETED, status_message =
                             Some \<lparr>role = ''agent'', parts = [TextPart ''earlier answer'']\<rparr>\<rparr>,
                 artifacts = Some [Artifact [TextPart ''earlier answer'']]\<rparr>"

definition demo_store :: task_store where
  "demo_store = [''task-1'' \<mapsto> demo_task]"

text \<open>An event with one text part, and an event with one tool response.\<close>

definition text_event :: "string \<Rightarrow> event" where
  "text_event t =
     \<lparr>content = Some \<lparr>content_parts =
        Some [\<lparr>part_text = Some t, part_function_call = None, part_function_response = None\<rparr>]\<rparr>\<rparr>"

definition tool_response_event :: "py_value \<Rightarrow> event" where
  "tool_response_event payload =
     \<lparr>content = Some \<lparr>content_parts =
        Some [\<lparr>part_text = None, part_function_call = None,
               part_function_response = Some \<lparr>response = payload\<rparr>\<rparr>]\<rparr>\<rparr>"

text \<open>
  Options with the fallback type \<open>array\<close> and aggressive mode off; a schema with the
  shapes the normaliser repairs, and the same schema repaired.
\<close>

definition demo_options_array :: schema_fix_options where
  "demo_options_array =
     \<lparr>convert_type_arrays_to = ''array'', validate_api_key = True, verbose = False,
      aggressive = False\<rparr>"

definition demo_schema :: py_value where
  "demo_schema =
     PDict [(KStr ''type'', PStr ''object''),
            (KStr ''properties'', PDict [
               (KStr ''args'', PDict [(KStr ''type'', PStr ''array'')]),
               (KStr ''mode'', PDict [(KStr ''type'', PList [PStr ''string'', PStr ''number'']),
                                      (KStr ''enum'', PList [PInt 1, PStr ''fast'', PBool True])])]),
            (KStr ''anyOf'', PList [PList [PDict [(KStr ''type'', PStr ''array'')]]])]"

definition demo_schema_fixed :: py_value where
  "demo_schema_fixed =
     PDict [(KStr ''type'', PStr ''object''),
            (KStr ''properties'', PDict [
               (KStr ''args'', PDict [(KStr ''type'', PStr ''array''),
                                      (KStr ''items'', PDict [(KStr ''type'', PStr ''string'')])]),
               (KStr ''mode'', PDict [(KStr ''type'', PStr ''string''),
                                      (KStr ''enum'', PList [PStr ''1'', PStr ''fast'', PStr ''True''])])]),
            (KStr ''anyOf'', PList [PList [PDict [(KStr ''type'', PStr ''array''),
                                      (KStr ''items'', PDict [(KStr ''type'', PStr ''string'')])]]])]"

section \<open>Properties of the task manager\<close>

subsection \<open>Auxiliary facts\<close>

lemma timeout_message_eq: "timeout_message = ''Timeout waiting for response from blockchain after 45 seconds''"
  by (simp add: timeout_message_def BLOCKCHAIN_TIMEOUT_def str_int_def)

lemma upsert_task_present:
  "\<exists>t. upsert_task rt tasks p (tsp_id p) = Some t \<and>
       artifact_list t = (case tasks (tsp_id p) of None \<Rightarrow> [] | Some t0 \<Rightarrow> artifact_list t0)"
  by (auto simp: upsert_task_def artifact_list_def split: option.splits)


lemma update_store_found:
  "tasks tid = Some t \<Longrightarrow>
   update_store tasks tid st (Some new) =
     (Inr (t\<lparr>status := st, artifacts := Some (artifact_list t @ new)\<rparr>),
      tasks(tid \<mapsto> t\<lparr>status := st, artifacts := Some (artifact_list t @ new)\<rparr>))"
  by (simp add: update_store_def artifact_list_def Let_def split: option.splits)

lemma update_store_missing:
  "tasks tid = None \<Longrightarrow>
   update_store tasks tid st new = (Inl (Raise ValueError (''Task '' @ tid @ '' not found'')), tasks)"
  by (simp add: update_store_def)

lemma artifact_list_update [simp]:
  "artifact_list (t\<lparr>status := st, artifacts := Some xs\<rparr>) = xs"
  by (simp add: artifact_list_def)

lemma task_update_simps [simp]:
  "artifact_list (task_update t st ps) = artifact_list t @ [Artifact ps]"
  "status (task_update t st ps) = \<lparr>state = st, status_message = Some \<lparr>role = ''agent'', parts = ps\<rparr>\<rparr>"
  "task_id (task_update t st ps) = task_id t"
  by (simp_all add: task_update_def artifact_list_def)

lemma update_store_task_update:
  "update_store tasks tid \<lparr>state = st, status_message = Some \<lparr>role = ''agent'', parts = ps\<rparr>\<rparr>
      (Some [Artifact ps]) =
   (case tasks tid of
      None \<Rightarrow> (Inl (Raise ValueError (''Task '' @ tid @ '' not found'')), tasks)
    | Some t \<Rightarrow> (Inr (task_update t st ps), tasks(tid \<mapsto> task_update t st ps)))"
  by (simp add: update_store_found update_store_missing task_update_def split: option.splits)

lemma create_error_response_cases:
  "create_error_response rt tasks rid tid msg =
     (if loop_running rt then (Inl (Raise ValueError msg), tasks)
      else (case tasks tid of
              None \<Rightarrow> (Inl (Raise ValueError msg), tasks)
            | Some t \<Rightarrow> (Inr (SendTaskResponse rid (task_update t COMPLETED [TextPart msg])),
                         tasks(tid \<mapsto> task_update t COMPLETED [TextPart msg]))))"
  by (simp add: create_error_response_def asyncio_run_def update_store_task_update Let_def
           split: option.splits)

lemma invoke_inner_cases:
  "invoke_inner rt tasks request q =
     (case wait_for rt (agent_invoke rt q (sessionId (params request))) of
        Inl e \<Rightarrow> (Inl e, tasks)
      | Inr v \<Rightarrow>
          (if v = PNone then (Inl (Raise ValueError ''No response received from agent''), tasks)
           else (case classify rt v of
                   Inl e \<Rightarrow> (Inl e, tasks)
                 | Inr ps \<Rightarrow>
                     (case tasks (tsp_id (params request)) of
                        None \<Rightarrow> (Inl (Raise ValueError
                                   (''Task '' @ tsp_id (params request) @ '' not found'')), tasks)
                      | Some t \<Rightarrow>
                          (Inr (SendTaskResponse (req_id request)
                                  (task_update t (task_state_of rt v) ps)),
                           tasks(tsp_id (params request) \<mapsto>
                                   task_update t (task_state_of rt v) ps))))))"
  by (simp add: invoke_inner_def update_store_task_update Let_def
           split: sum.splits option.splits)

lemma invoke_inner_error_store:
  "invoke_inner rt tasks request q = (Inl e, tasks') \<Longrightarrow> tasks' = tasks"
  by (auto simp: invoke_inner_cases split: sum.splits if_splits option.splits)


lemma create_error_response_error_store:
  "create_error_response rt tasks rid tid msg = (Inl e, tasks') \<Longrightarrow>
   tasks' = tasks \<and> e = Raise ValueError msg"
  by (auto simp: create_error_response_cases split: if_splits option.splits)






lemma json_key_error_kind: "json_key k = Inl e \<Longrightarrow> kind e = TypeError"
  by (cases k) auto

lemma json_value_error_kind:
  "json_value v = Inl e \<Longrightarrow> kind e = TypeError"
  "json_values vs = Inl e \<Longrightarrow> kind e = TypeError"
  "json_items kvs = Inl e \<Longrightarrow> kind e = TypeError"
  by (induction v and vs and kvs rule: json_value_json_values_json_items.induct)
     (auto split: sum.splits dest: json_key_error_kind)

lemma classify_container:
  "is_dict_or_list v \<Longrightarrow>
   classify rt v = (case json_value v of Inl e \<Rightarrow> Inr [TextPart (py_str rt v)]
                    | Inr j \<Rightarrow> Inr [DataPart j])"
  by (cases v) (auto simp: classify_def classify_try_def looks_structured_def json_loads_dumps_def
        split: sum.splits dest: json_value_error_kind)

lemma classify_string:
  "classify rt (PStr s) =
     (if prefix ''{'' s \<or> prefix ''['' s
      then (case json_loads rt s of Some j \<Rightarrow> Inr [DataPart j] | None \<Rightarrow> Inr [DataPart (PStr s)])
      else Inr [TextPart s])"
  by (auto simp: classify_def classify_try_def looks_structured_def json_loads_dumps_def
        split: sum.splits option.splits)

lemma classify_total:
  "is_dict_or_list v \<or> (\<exists>s. v = PStr s) \<Longrightarrow> \<exists>ps. classify rt v = Inr ps"
  by (auto simp: classify_container classify_string split: sum.splits option.splits)

lemma on_send_task_returns:
  assumes "loop_running rt" and "validate_request rt request = None"
    and "get_user_query (params request) = Inr q"
    and "agent_invoke rt q (sessionId (params request)) = Returns v"
    and "v \<noteq> PNone" and "classify rt v = Inr ps"
  shows "\<exists>t. upsert_task rt tasks (params request) (tsp_id (params request)) = Some t \<and>
     on_send_task rt tasks request =
       (Inr (SendTaskResponse (req_id request) (task_update t (task_state_of rt v) ps)),
        (upsert_task rt tasks (params request))
          (tsp_id (params request) \<mapsto> task_update t (task_state_of rt v) ps))"
proof -
  obtain t where t: "upsert_task rt tasks (params request) (tsp_id (params request)) = Some t"
    using upsert_task_present by blast
  with assms show ?thesis
    by (simp add: on_send_task_def AgentTaskManager_invoke_def invoke_outer_def
          invoke_inner_cases wait_for_def)
qed

lemma dict_of_pairs_distinct_aux:
  "distinct (map fst (acc @ kvs)) \<Longrightarrow>
   foldl (\<lambda>d (k, v). AList.update k v d) acc kvs = acc @ kvs"
proof (induction kvs arbitrary: acc)
  case Nil
  then show ?case by simp
next
  case (Cons kv kvs)
  obtain k v where kv: "kv = (k, v)" by (cases kv)
  from Cons.prems kv have "k \<notin> fst ` set acc" by auto
  then have "AList.update k v acc = acc @ [(k, v)]"
    by (induction acc) auto
  with Cons.IH[of "acc @ [(k, v)]"] Cons.prems kv show ?case by simp
qed

lemma dict_of_pairs_distinct:
  "distinct (map fst kvs) \<Longrightarrow> dict_of_pairs kvs = kvs"
  using dict_of_pairs_distinct_aux[of "[]" kvs] by (simp add: dict_of_pairs_def)

lemma json_items_primitive:
  "list_all (\<lambda>(k, v). is_str_key k \<and> json_primitive v) d \<Longrightarrow> json_items d = Inr d"
proof (induction d)
  case Nil
  then show ?case by simp
next
  case (Cons kv d)
  obtain k v where kv: "kv = (k, v)" by (cases kv)
  with Cons show ?case by (cases k; cases v) auto
qed

lemma demo_runtime_simps [simp]:
  "loop_running (demo_runtime out) = True"
  "json_loads (demo_runtime out) = demo_json_loads"
  "are_modalities_compatible (demo_runtime out) = demo_compatible"
  "initial_status (demo_runtime out) = \<lparr>state = INPUT_REQUIRED, status_message = None\<rparr>"
  "agent_invoke (demo_runtime out) q sid = out"
  by (simp_all add: demo_runtime_def)

lemma demo_request_simps [simp]:
  "req_id (demo_request ps) = ''req-1''"
  "tsp_id (params (demo_request ps)) = ''task-1''"
  "sessionId (params (demo_request ps)) = ''session-1''"
  "parts (tsp_message (params (demo_request ps))) = ps"
  "acceptedOutputModes (params (demo_request ps)) = Some [''text'']"
  by (simp_all add: demo_request_def)

lemma demo_validate [simp]: "validate_request (demo_runtime out) (demo_request ps) = None"
  by (simp add: validate_request_def demo_compatible_def SUPPORTED_CONTENT_TYPES_def)

lemma demo_query [simp]: "get_user_query (params (demo_request (TextPart q # ps))) = Inr q"
  by (simp add: get_user_query_def)

subsection \<open>The claims about the task manager\<close>

text \<open>
  C1 (timeout). The claim: when the agent does not return within the 45 second bound,
  \<open>on_send_task\<close> returns a response wrapping a \<open>COMPLETED\<close> task whose new artifact is one
  text part naming the timeout. The code does not do that: \<open>on_send_task\<close> and \<open>_invoke\<close>
  are coroutines, so a loop is running when \<open>_create_error_response\<close> calls \<open>asyncio.run\<close>;
  that call raises, the handler turns it into \<open>ValueError\<close> with the timeout text, the
  outer \<open>except Exception\<close> sends that through \<open>_create_error_response\<close> once more, and the
  second \<open>ValueError\<close> leaves \<open>on_send_task\<close>. The store holds the task as \<open>upsert_task\<close>
  left it: no status and no artifact were written.
\<close>

theorem on_send_task_timeout:
  assumes "loop_running rt" and "validate_request rt request = None"
    and "get_user_query (params request) = Inr q"
    and "agent_invoke rt q (sessionId (params request)) = Hangs"
  shows "on_send_task rt tasks request =
           (Inl (Raise ValueError (''Error invoking agent: '' @ timeout_message)),
            upsert_task rt tasks (params request))"
  using assms
  by (simp add: on_send_task_def AgentTaskManager_invoke_def invoke_outer_def
        invoke_inner_cases wait_for_def create_error_response_cases)

text \<open>The timeout at a concrete request: the exception that escapes and the store left.\<close>

theorem on_send_task_timeout_witness:
  "on_send_task (demo_runtime Hangs) Map.empty (demo_request [TextPart ''balance?'']) =
     (Inl (Raise ValueError
        ''Error invoking agent: Timeout waiting for response from blockchain after 45 seconds''),
      [''task-1'' \<mapsto> \<lparr>task_id = ''task-1'',
                       status = \<lparr>state = INPUT_REQUIRED, status_message = None\<rparr>,
                       artifacts = None\<rparr>])"
  using on_send_task_timeout[of "demo_runtime Hangs" "demo_request [TextPart ''balance?'']"
      "''balance?''" Map.empty]
  by (simp add: timeout_message_eq upsert_task_def)

text \<open>
  C2 (failure handling), as amended. The query is extracted before the \<open>try\<close>, so an
  exception of \<open>_get_user_query\<close> leaves \<open>_invoke\<close> as it is raised, with the store
  untouched. Every \<open>Exception\<close> raised inside the inner \<open>try\<close> (agent invocation with its
  timeout, classification, state determination, store update) is caught and handed to
  \<open>_create_error_response\<close> with the message \<open>Error invoking agent: \<close> followed by the
  exception's text (for a timeout, the timeout message, with or without that prefix).
  When the store update of \<open>_create_error_response\<close> succeeds, the result is a response
  wrapping the \<open>COMPLETED\<close> task whose status message and new artifact are that one text
  part; when it fails, \<open>ValueError\<close> with the message is raised and the store is unchanged.
\<close>

theorem invoke_exception_handling:
  assumes "AgentTaskManager_invoke rt tasks request = (r, tasks')"
  shows "(\<forall>e. get_user_query (params request) = Inl e \<longrightarrow> r = Inl e \<and> tasks' = tasks) \<and>
         (\<forall>q e s. get_user_query (params request) = Inr q \<and>
                  invoke_inner rt tasks request q = (Inl e, s) \<and> is_Exception e \<longrightarrow>
            (\<exists>msg. (msg = ''Error invoking agent: '' @ str_exn e \<or>
                     kind e = TimeoutError \<and>
                       (msg = timeout_message \<or> msg = ''Error invoking agent: '' @ timeout_message)) \<and>
               (if store_update_fails rt tasks (tsp_id (params request)) msg
                then r = Inl (Raise ValueError msg) \<and> tasks' = tasks
                else \<exists>t. tasks (tsp_id (params request)) = Some t \<and>
                       r = Inr (SendTaskResponse (req_id request)
                                  (task_update t COMPLETED [TextPart msg])) \<and>
                       tasks' = tasks(tsp_id (params request) \<mapsto>
                                        task_update t COMPLETED [TextPart msg]))))"
proof (rule conjI)
  show "\<forall>e. get_user_query (params request) = Inl e \<longrightarrow> r = Inl e \<and> tasks' = tasks"
    using assms by (auto simp: AgentTaskManager_invoke_def)
next
  show "\<forall>q e s. get_user_query (params request) = Inr q \<and>
                  invoke_inner rt tasks request q = (Inl e, s) \<and> is_Exception e \<longrightarrow>
            (\<exists>msg. (msg = ''Error invoking agent: '' @ str_exn e \<or>
                     kind e = TimeoutError \<and>
                       (msg = timeout_message \<or> msg = ''Error invoking agent: '' @ timeout_message)) \<and>
               (if store_update_fails rt tasks (tsp_id (params request)) msg
                then r = Inl (Raise ValueError msg) \<and> tasks' = tasks
                else \<exists>t. tasks (tsp_id (params request)) = Some t \<and>
                       r = Inr (SendTaskResponse (req_id request)
                                  (task_update t COMPLETED [TextPart msg])) \<and>
                       tasks' = tasks(tsp_id (params request) \<mapsto>
                                        task_update t COMPLETED [TextPart msg])))"
  proof (intro allI impI)
  fix q e s
  assume h: "get_user_query (params request) = Inr q \<and>
             invoke_inner rt tasks request q = (Inl e, s) \<and> is_Exception e"
  then have s: "s = tasks" by (auto dest: invoke_inner_error_store)
  let ?cer = "create_error_response rt tasks (req_id request) (tsp_id (params request))"
  let ?P = "\<lambda>msg. if store_update_fails rt tasks (tsp_id (params request)) msg
                then r = Inl (Raise ValueError msg) \<and> tasks' = tasks
                else \<exists>t. tasks (tsp_id (params request)) = Some t \<and>
                       r = Inr (SendTaskResponse (req_id request)
                                  (task_update t COMPLETED [TextPart msg])) \<and>
                       tasks' = tasks(tsp_id (params request) \<mapsto>
                                        task_update t COMPLETED [TextPart msg])"
  have conv: "?P msg" if "?cer msg = (r, tasks')" for msg
    using that
    by (auto simp: create_error_response_cases store_update_fails_def asyncio_run_def
          error_status_def update_store_task_update split: option.splits if_splits)
  show "\<exists>msg. (msg = ''Error invoking agent: '' @ str_exn e \<or>
                kind e = TimeoutError \<and>
                  (msg = timeout_message \<or> msg = ''Error invoking agent: '' @ timeout_message)) \<and>
              ?P msg"
  proof (cases "kind e = TimeoutError")
    case False
    with h s assms have "?cer (''Error invoking agent: '' @ str_exn e) = (r, tasks')"
      by (simp add: AgentTaskManager_invoke_def invoke_outer_def)
    from conv[OF this] show ?thesis by blast
  next
    case True
    obtain x s1 where c: "?cer timeout_message = (x, s1)"
      by (cases "?cer timeout_message") auto
    show ?thesis
    proof (cases x)
      case (Inr resp)
      with c h s True assms have "?cer timeout_message = (r, tasks')"
        by (simp add: AgentTaskManager_invoke_def invoke_outer_def)
      from conv[OF this] True show ?thesis by blast
    next
      case (Inl y)
      from create_error_response_error_store[OF c[unfolded Inl]]
      have x: "s1 = tasks" "y = Raise ValueError timeout_message"
        by auto
      with c Inl h s True assms
      have "?cer (''Error invoking agent: '' @ timeout_message) = (r, tasks')"
        by (simp add: AgentTaskManager_invoke_def invoke_outer_def)
      from conv[OF this] True show ?thesis by blast
    qed
  qed
  qed
qed

text \<open>
  An agent that raises, with the event loop running: the store update of
  \<open>_create_error_response\<close> fails and \<open>ValueError\<close> with the prefixed message escapes.
\<close>

theorem invoke_exception_handling_witness:
  "AgentTaskManager_invoke (demo_runtime (Raises (Raise RuntimeError ''node unreachable'')))
      demo_store (demo_request [TextPart ''balance?'']) =
     (Inl (Raise ValueError ''Error invoking agent: node unreachable''), demo_store) \<and>
   store_update_fails (demo_runtime (Raises (Raise RuntimeError ''node unreachable'')))
      demo_store ''task-1'' ''Error invoking agent: node unreachable''"
  using invoke_exception_handling[of "demo_runtime (Raises (Raise RuntimeError ''node unreachable''))"
      demo_store "demo_request [TextPart ''balance?'']"
      "Inl (Raise ValueError ''Error invoking agent: node unreachable'')" demo_store]
  by (simp add: AgentTaskManager_invoke_def invoke_outer_def invoke_inner_cases wait_for_def
        create_error_response_cases store_update_fails_def asyncio_run_def)

text \<open>
  The claim as written fails at query extraction: for a stored task and a request whose
  first part is a data part, \<open>ValueError\<close> escapes although the task is in the store, so
  no store update failed.
\<close>

theorem invoke_exception_handling_counterexample:
  "on_send_task (demo_runtime (Returns (PStr ''ok''))) demo_store
      (demo_request [DataPart (PInt 7)]) =
     (Inl (Raise ValueError ''Only text parts are supported''), demo_store) \<and>
   demo_store ''task-1'' = Some demo_task"
  by (simp add: on_send_task_def AgentTaskManager_invoke_def get_user_query_def upsert_task_def
        demo_store_def)

text \<open>
  C3 (non-text input), as amended. For a request with compatible output modes whose
  first message part is not a text part, \<open>on_send_task\<close> returns no response: it raises
  \<open>ValueError\<close> with the text \<open>Only text parts are supported\<close>, after the upsert. The store
  it leaves is the store after \<open>upsert_task\<close>: a record exists for the task id, and neither
  status nor artifacts were updated.
\<close>

theorem on_send_task_non_text_part:
  assumes "validate_request rt request = None"
    and "parts (tsp_message (params request)) = p # rest"
    and "\<forall>text. p \<noteq> TextPart text"
  shows "on_send_task rt tasks request =
           (Inl (Raise ValueError ''Only text parts are supported''),
            upsert_task rt tasks (params request))"
  using assms
  by (cases p) (auto simp: on_send_task_def AgentTaskManager_invoke_def get_user_query_def)

text \<open>A data part sent for a task that exists: the exception, and the store as it was.\<close>

theorem on_send_task_non_text_part_witness:
  "on_send_task (demo_runtime (Returns (PStr ''ok''))) demo_store
      (demo_request [DataPart (PInt 7)]) =
     (Inl (Raise ValueError ''Only text parts are supported''), demo_store)"
  using on_send_task_non_text_part[of "demo_runtime (Returns (PStr ''ok''))"
      "demo_request [DataPart (PInt 7)]" "DataPart (PInt 7)" "[]" demo_store]
  by (simp add: upsert_task_def demo_store_def)

text \<open>
  The claim as written fails: on an empty store the same request raises instead of
  returning a response, and the task record has been created.
\<close>

theorem on_send_task_non_text_part_counterexample:
  "fst (on_send_task (demo_runtime (Returns (PStr ''ok''))) Map.empty
          (demo_request [DataPart (PInt 7)])) =
     Inl (Raise ValueError ''Only text parts are supported'') \<and>
   snd (on_send_task (demo_runtime (Returns (PStr ''ok''))) Map.empty
          (demo_request [DataPart (PInt 7)])) ''task-1'' =
     Some \<lparr>task_id = ''task-1'', status = \<lparr>state = INPUT_REQUIRED, status_message = None\<rparr>,
            artifacts = None\<rparr> \<and>
   (Map.empty :: task_store) ''task-1'' = None"
  by (simp add: on_send_task_def AgentTaskManager_invoke_def get_user_query_def upsert_task_def)



text \<open>
  C5 (sentinel). For a response value of the agent that is a string, a dictionary or a
  list, \<open>on_send_task\<close> returns the updated task, and its state is \<open>INPUT_REQUIRED\<close>
  exactly when the string form of the response contains \<open>MISSING_INFO:\<close>, and \<open>COMPLETED\<close>
  exactly when it does not. The response \<open>Balance: 1.5 ETH\<close> gives a \<open>COMPLETED\<close> status
  whose message, and whose newest artifact, is the single text part with that text.
\<close>

theorem task_state_sentinel:
  assumes "loop_running rt" and "validate_request rt request = None"
    and "get_user_query (params request) = Inr q"
    and "agent_invoke rt q (sessionId (params request)) = Returns v"
    and "is_dict_or_list v \<or> (\<exists>s. v = PStr s)"
  shows "\<exists>t tasks'. on_send_task rt tasks request = (Inr (SendTaskResponse (req_id request) t), tasks')
     \<and> tasks' (tsp_id (params request)) = Some t
     \<and> (state (status t) = INPUT_REQUIRED \<longleftrightarrow> (\<exists>pre post. py_str rt v = pre @ ''MISSING_INFO:'' @ post))
     \<and> (state (status t) = COMPLETED \<longleftrightarrow> \<not> (\<exists>pre post. py_str rt v = pre @ ''MISSING_INFO:'' @ post))
     \<and> (v = PStr ''Balance: 1.5 ETH'' \<longrightarrow>
          status t = \<lparr>state = COMPLETED, status_message =
                        Some \<lparr>role = ''agent'', parts = [TextPart ''Balance: 1.5 ETH'']\<rparr>\<rparr>
          \<and> last (artifact_list t) = Artifact [TextPart ''Balance: 1.5 ETH''])"
proof -
  from assms(5) obtain ps where ps: "classify rt v = Inr ps"
    using classify_total by blast
  from assms(5) have nn: "v \<noteq> PNone" by auto
  from on_send_task_returns[OF assms(1-4) nn ps, of tasks] obtain t where
    r: "on_send_task rt tasks request =
       (Inr (SendTaskResponse (req_id request) (task_update t (task_state_of rt v) ps)),
        (upsert_task rt tasks (params request))
          (tsp_id (params request) \<mapsto> task_update t (task_state_of rt v) ps))"
    by blast
  have st: "state (status (task_update t (task_state_of rt v) ps)) = task_state_of rt v"
    by simp
  have bal: "\<not> sublist ''MISSING_INFO:'' ''Balance: 1.5 ETH''"
    by (simp add: sublist_code)
  have "v = PStr ''Balance: 1.5 ETH'' \<longrightarrow> ps = [TextPart ''Balance: 1.5 ETH''] \<and>
          task_state_of rt v = COMPLETED"
    using ps bal by (auto simp: classify_string task_state_of_def)
  with r st show ?thesis
    by (auto simp: task_state_of_def sublist_def)
qed

text \<open>A response that carries the marker puts the task in \<open>INPUT_REQUIRED\<close>.\<close>

theorem task_state_sentinel_witness:
  "(\<exists>tasks'. on_send_task (demo_runtime (Returns (PStr ''MISSING_INFO: which address?'')))
        demo_store (demo_request [TextPart ''send 1 ETH'']) =
      (Inr (SendTaskResponse ''req-1''
         (task_update demo_task INPUT_REQUIRED [TextPart ''MISSING_INFO: which address?''])),
       tasks'))"
  using task_state_sentinel[of "demo_runtime (Returns (PStr ''MISSING_INFO: which address?''))"
      "demo_request [TextPart ''send 1 ETH'']" "''send 1 ETH''"
      "PStr ''MISSING_INFO: which address?''" demo_store]
  by (simp add: on_send_task_def AgentTaskManager_invoke_def invoke_outer_def invoke_inner_cases
        wait_for_def classify_string task_state_of_def upsert_task_def demo_store_def sublist_code)

text \<open>
  C6 (classification law), as amended. A dictionary whose keys are all strings and whose
  values are \<open>None\<close>, booleans, integers, finite floats or strings is classified as one
  data part carrying the dictionary itself, and serialising then parsing it gives it
  back. A string that starts with neither \<open>{\<close> nor \<open>[\<close> is classified as one text part with
  the same text.
\<close>

theorem classification_law:
  "(json_primitive_mapping d \<longrightarrow>
      classify rt (PDict d) = Inr [DataPart (PDict d)] \<and> json_loads_dumps (PDict d) = Inr (PDict d))
   \<and> (\<not> prefix ''{'' s \<and> \<not> prefix ''['' s \<longrightarrow> classify rt (PStr s) = Inr [TextPart s])"
  by (auto simp: classify_container classify_string json_loads_dumps_def json_primitive_mapping_def
        json_items_primitive dict_of_pairs_distinct)

text \<open>A mapping of primitives and a plain sentence, classified.\<close>

theorem classification_law_witness:
  "classify (demo_runtime Hangs)
     (PDict [(KStr ''balance'', PFloat 3 (- 1)), (KStr ''block'', PInt 12),
             (KStr ''symbol'', PStr ''ETH''), (KStr ''synced'', PBool True),
             (KStr ''memo'', PNone)]) =
     Inr [DataPart (PDict [(KStr ''balance'', PFloat 3 (- 1)), (KStr ''block'', PInt 12),
                           (KStr ''symbol'', PStr ''ETH''), (KStr ''synced'', PBool True),
                           (KStr ''memo'', PNone)])] \<and>
   classify (demo_runtime Hangs) (PStr ''Balance: 1.5 ETH'') = Inr [TextPart ''Balance: 1.5 ETH'']"
  using classification_law[of "[(KStr ''balance'', PFloat 3 (- 1)), (KStr ''block'', PInt 12),
             (KStr ''symbol'', PStr ''ETH''), (KStr ''synced'', PBool True),
             (KStr ''memo'', PNone)]" "demo_runtime Hangs" "''Balance: 1.5 ETH''"]
  by (simp add: json_primitive_mapping_def)

text \<open>
  The claim as written fails for a key that is not a string: \<open>json.dumps\<close> accepts the
  mapping \<open>{1: 'a'}\<close> and writes the key as the string \<open>1\<close>, so the data part carries
  \<open>{'1': 'a'}\<close>, which is not the mapping that was returned.
\<close>

theorem classification_law_counterexample:
  "classify (demo_runtime Hangs) (PDict [(KInt 1, PStr ''a'')]) =
     Inr [DataPart (PDict [(KStr ''1'', PStr ''a'')])] \<and>
   json_loads_dumps (PDict [(KInt 1, PStr ''a'')]) = Inr (PDict [(KStr ''1'', PStr ''a'')]) \<and>
   PDict [(KStr ''1'', PStr ''a'')] \<noteq> PDict [(KInt 1, PStr ''a'')]"
  by (simp add: classify_container json_loads_dumps_def dict_of_pairs_def str_int_def)

text \<open>
  C7 (unparseable structured-looking string). The claim: a string that starts with \<open>{\<close>
  or \<open>[\<close> and is not JSON becomes a text part. The code gives a data part: after
  \<open>json.loads(result)\<close> fails, the fallback \<open>json.loads(json.dumps(result, ...))\<close> is applied
  to the string itself, which serialises to a JSON string literal and parses back to the
  same string, so the handler that degrades to text is never reached.
\<close>

theorem classify_unparseable_string:
  assumes "prefix ''{'' s \<or> prefix ''['' s" and "json_loads rt s = None"
  shows "classify rt (PStr s) = Inr [DataPart (PStr s)]"
  using assms by (simp add: classify_string)

text \<open>The string \<open>{oops\<close> is not JSON, and it is classified as data.\<close>

theorem classify_unparseable_string_witness:
  "classify (demo_runtime Hangs) (PStr ''{oops'') = Inr [DataPart (PStr ''{oops'')]"
  using classify_unparseable_string[of "''{oops''" "demo_runtime Hangs"]
  by (simp add: demo_json_loads_def)

section \<open>Properties of the agent wrapper\<close>

lemma observed_texts_simps [simp]:
  "observed_texts [] = []"
  "observed_texts (p # ps) =
     (case part_text p of Some t \<Rightarrow> (if t \<noteq> [] then t # observed_texts ps else observed_texts ps)
      | None \<Rightarrow> observed_texts ps)"
  "observed_texts (ps @ qs) = observed_texts ps @ observed_texts qs"
  by (auto simp: observed_texts_def List.map_filter_def split: option.splits)

lemma first_tool_response_simps [simp]:
  "first_tool_response [] = None"
  "first_tool_response (p # ps) =
     (case part_function_response p of Some fr \<Rightarrow> Some (response fr)
      | None \<Rightarrow> first_tool_response ps)"
  by (auto simp: first_tool_response_def split: option.splits)

lemma first_tool_response_append:
  "first_tool_response (ps @ qs) =
     (case first_tool_response ps of Some x \<Rightarrow> Some x | None \<Rightarrow> first_tool_response qs)"
  by (induction ps) (auto split: option.splits)

lemma text_after_simps:
  "text_after last_text [] = last_text"
  "text_after last_text (ps @ qs) = text_after (text_after last_text ps) qs"
  by (auto simp: text_after_def)

lemma consume_parts_eq:
  "consume_parts rt ps last_text =
     (case first_tool_response ps of
        Some payload \<Rightarrow> Inl (tool_response_string rt payload)
      | None \<Rightarrow> Inr (text_after last_text ps))"
proof (induction ps arbitrary: last_text)
  case Nil
  then show ?case by (simp add: text_after_def)
next
  case (Cons p ps)
  then show ?case
    by (auto simp: text_after_def split: option.splits)
qed

lemma consume_events_eq:
  "consume_events rt (map Inr evs @ later) last_text =
     (case first_tool_response (all_parts evs) of
        Some payload \<Rightarrow> Inr (tool_response_string rt payload)
      | None \<Rightarrow> consume_events rt later (text_after last_text (all_parts evs)))"
proof (induction evs arbitrary: last_text)
  case Nil
  then show ?case by (simp add: all_parts_def text_after_def)
next
  case (Cons ev evs)
  have ap: "all_parts (ev # evs) = event_parts ev @ all_parts evs"
    by (simp add: all_parts_def)
  show ?case
  proof (cases "event_parts ev = []")
    case True
    with Cons show ?thesis by (simp add: ap split: option.splits)
  next
    case False
    with Cons show ?thesis
      by (simp add: ap consume_parts_eq first_tool_response_append text_after_simps
            split: option.splits)
  qed
qed


lemma consume_events_Inl:
  "consume_events rt stream last_text = Inl e \<Longrightarrow> e \<in> set (raised stream)"
proof (induction rt stream last_text rule: consume_events.induct)
  case (1 rt last_text)
  then show ?case by (auto split: option.splits)
next
  case (2 rt e rest last_text)
  then show ?case by (simp add: raised_def List.map_filter_def)
next
  case (3 rt ev rest last_text)
  then show ?case
    by (auto simp: raised_def List.map_filter_def split: if_splits sum.splits)
qed



text \<open>
  C10 (no exception leaves \<open>invoke\<close>), as amended. With the agent initialised, a stream
  that raises only subclasses of \<open>Exception\<close> always makes \<open>invoke\<close> return a string. An
  exception raised before any tool response is returned as \<open>Query timed out\<close> when it is
  \<open>asyncio.TimeoutError\<close>, and as \<open>Error: \<close> followed by its text otherwise. When the first
  tool response is structured and its serialisation raises, \<open>invoke\<close> returns
  \<open>Response: \<close> followed by the payload's string form.
\<close>

theorem invoke_returns_string:
  "(list_all is_Exception (raised stream) \<longrightarrow> (\<exists>s. Web3Agent_invoke rt True stream = Inr s)) \<and>
   (first_tool_response (all_parts evs) = None \<and> is_Exception e \<longrightarrow>
      Web3Agent_invoke rt True (map Inr evs @ Inl e # rest) =
        Inr (if kind e = TimeoutError then ''Query timed out'' else ''Error: '' @ str_exn e)) \<and>
   (first_tool_response (all_parts evs) = Some payload \<and>
    (is_dict_or_list payload \<or> has_dict_or_to_dict payload) \<and> isl (json_dumps rt payload) \<longrightarrow>
      Web3Agent_invoke rt True (map Inr evs @ later) = Inr (''Response: '' @ py_str rt payload))"
proof (intro conjI impI)
  assume ok: "list_all is_Exception (raised stream)"
  show "\<exists>s. Web3Agent_invoke rt True stream = Inr s"
  proof (cases "consume_events rt stream None")
    case (Inl x)
    then have "x \<in> set (raised stream)" by (rule consume_events_Inl)
    with ok have "is_Exception x" by (simp add: list_all_iff)
    with Inl show ?thesis by (simp add: Web3Agent_invoke_def)
  next
    case (Inr s)
    then show ?thesis by (simp add: Web3Agent_invoke_def)
  qed
next
  assume "first_tool_response (all_parts evs) = None \<and> is_Exception e"
  then show "Web3Agent_invoke rt True (map Inr evs @ Inl e # rest) =
        Inr (if kind e = TimeoutError then ''Query timed out'' else ''Error: '' @ str_exn e)"
    by (simp add: Web3Agent_invoke_def consume_events_eq)
next
  assume h: "first_tool_response (all_parts evs) = Some payload \<and>
    (is_dict_or_list payload \<or> has_dict_or_to_dict payload) \<and> isl (json_dumps rt payload)"
  then have "tool_response_string rt payload = ''Response: '' @ py_str rt payload"
    by (auto simp: tool_response_string_def isl_def)
  with h show "Web3Agent_invoke rt True (map Inr evs @ later) =
      Inr (''Response: '' @ py_str rt payload)"
    by (simp add: Web3Agent_invoke_def consume_events_eq)
qed

text \<open>A stream that fails, one that times out, and a payload that cannot be serialised.\<close>

theorem invoke_returns_string_witness:
  "Web3Agent_invoke (demo_runtime Hangs) True
      [Inr (text_event ''checking''), Inl (Raise OtherException ''connection reset'')] =
     Inr ''Error: connection reset'' \<and>
   Web3Agent_invoke (demo_runtime Hangs) True
      [Inr (text_event ''checking''), Inl (Raise TimeoutError [])] = Inr ''Query timed out'' \<and>
   Web3Agent_invoke (demo_runtime Hangs) True
      [Inr (tool_response_event (PDict [(KTuple, PInt 1)])), Inr (text_event ''done'')] =
     Inr ''Response: <container>''"
  using invoke_returns_string[of "[Inr (text_event ''checking''), Inl (Raise OtherException ''connection reset'')]"
      "demo_runtime Hangs" "[text_event ''checking'']" "Raise OtherException ''connection reset''" "[]"
      "PDict [(KTuple, PInt 1)]" "[]"]
    invoke_returns_string[of "[]" "demo_runtime Hangs" "[text_event ''checking'']"
      "Raise TimeoutError []" "[]" "PDict [(KTuple, PInt 1)]" "[]"]
    invoke_returns_string[of "[]" "demo_runtime Hangs"
      "[tool_response_event (PDict [(KTuple, PInt 1)])]" "Raise TimeoutError []" "[]"
      "PDict [(KTuple, PInt 1)]" "[Inr (text_event ''done'')]"]
  by (simp add: all_parts_def event_parts_def text_event_def tool_response_event_def
        json_dumps_def demo_runtime_def raised_def List.map_filter_def)

text \<open>
  The claim as written fails for a timeout: the string returned does not start with
  \<open>Error: \<close>.
\<close>

theorem invoke_returns_string_counterexample:
  "Web3Agent_invoke (demo_runtime Hangs) True [Inl (Raise TimeoutError [])] =
     Inr ''Query timed out'' \<and>
   \<not> prefix ''Error: '' ''Query timed out''"
  by (simp add: Web3Agent_invoke_def)

section \<open>Properties of the schema normaliser\<close>

subsection \<open>The recursion of the source, and schemas that need no repair\<close>

lemma map_values_cong:
  "(\<And>k v. (k, v) \<in> set d \<Longrightarrow> f v = g v) \<Longrightarrow> map_values f d = map_values g d"
  by (auto simp: map_values_def)

lemma fix_properties_cong:
  assumes "\<And>props k v x. dict_get d ''properties'' = Some (PDict props) \<Longrightarrow>
       (k, v) \<in> set (fix_args props) \<Longrightarrow> v = PDict x \<Longrightarrow> f v = g v"
  shows "fix_properties f d = fix_properties g d"
proof (cases "\<exists>props. dict_get d ''properties'' = Some (PDict props)")
  case True
  then obtain props where p: "dict_get d ''properties'' = Some (PDict props)" by blast
  have "map_values (on_dict f) (fix_args props) = map_values (on_dict g) (fix_args props)"
    by (rule map_values_cong) (auto simp: on_dict_def assms[OF p] split: py_value.splits)
  with p show ?thesis by (simp add: fix_properties_def)
next
  case False
  then show ?thesis
    by (auto simp: fix_properties_def split: option.splits py_value.splits)
qed

lemma map_values_on_nested_cong:
  assumes "\<And>k v x. (k, v) \<in> set d \<Longrightarrow> v = PDict x \<Longrightarrow> f v = g v"
    and "\<And>k xs x y. (k, PList xs) \<in> set d \<Longrightarrow> x \<in> set xs \<Longrightarrow> x = PDict y \<Longrightarrow> f x = g x"
  shows "map_values (on_nested f) d = map_values (on_nested g) d"
proof (rule map_values_cong)
  fix k v assume kv: "(k, v) \<in> set d"
  show "on_nested f v = on_nested g v"
  proof (cases v)
    case (PList xs)
    have "map (on_dict f) xs = map (on_dict g) xs"
      using assms(2)[of k xs] kv PList by (auto simp: on_dict_def split: py_value.splits)
    with PList show ?thesis by (simp add: on_nested_def)
  qed (use assms(1)[OF kv] in \<open>auto simp: on_nested_def\<close>)
qed

lemma weight_item_less:
  "(k, PList xs) \<in> set d \<Longrightarrow> x \<in> set xs \<Longrightarrow> weight x < weight (PDict d)"
  using weight_items_mem[of k "PList xs" d] weight_list_mem[of x xs]
  by (simp add: dict_weight_def)

lemma fuel_enough:
  "weight x \<le> n \<Longrightarrow> weight x \<le> m \<Longrightarrow> fix_openai_fuel n x = fix_openai_fuel m x"
proof (induction n arbitrary: x m)
  case 0
  then show ?case by (cases x; cases m) auto
next
  case (Suc n)
  show ?case
  proof (cases x)
    case (PDict d)
    with Suc.prems obtain m' where m: "m = Suc m'" by (cases m) auto
    let ?d1 = "add_default_items d"
    have w1: "weight (PDict ?d1) = weight x" using PDict by simp
    have wp: "weight (PDict (fix_args props)) = weight (PDict props)" for props by simp
    have small: "weight v \<le> n \<and> weight v \<le> m'" if "weight v < weight x" for v
      using that Suc.prems m by simp
    have fp: "fix_properties (fix_openai_fuel n) ?d1 = fix_properties (fix_openai_fuel m') ?d1"
    proof (rule fix_properties_cong)
      fix props k v y
      assume p: "dict_get ?d1 ''properties'' = Some (PDict props)"
        and kv: "(k, v) \<in> set (fix_args props)"
      from kv have "weight v < weight (PDict (fix_args props))" by (rule weight_value_less)
      also have "\<dots> = weight (PDict props)" by simp
      also have "\<dots> < weight (PDict ?d1)"
        using dict_get_mem[OF p] by (rule weight_value_less)
      finally have "weight v < weight x" using w1 by simp
      then show "fix_openai_fuel n v = fix_openai_fuel m' v"
        using small Suc.IH by blast
    qed
    let ?d2 = "fix_properties (fix_openai_fuel n) ?d1"
    have w2: "weight (PDict ?d2) = weight x"
      using weight_fix_properties[of ?d1 "fix_openai_fuel n"] w1 by simp
    have mv: "map_values (on_nested (fix_openai_fuel n)) ?d2 =
              map_values (on_nested (fix_openai_fuel m')) ?d2"
    proof (rule map_values_on_nested_cong)
      fix k v y assume "(k, v) \<in> set ?d2"
      then have "weight v < weight x" using weight_value_less w2 by metis
      then show "fix_openai_fuel n v = fix_openai_fuel m' v" using small Suc.IH by blast
    next
      fix k xs v y assume "(k, PList xs) \<in> set ?d2" "v \<in> set xs"
      then have "weight v < weight x" using weight_item_less w2 by metis
      then show "fix_openai_fuel n v = fix_openai_fuel m' v" using small Suc.IH by blast
    qed
    from fp mv PDict m show ?thesis by simp
  qed (cases m; simp)+
qed

lemma fix_openai_fuel_eq:
  "weight x \<le> n \<Longrightarrow> fix_openai_fuel n x = fix_openai_validation_errors x"
  unfolding fix_openai_validation_errors_def by (rule fuel_enough) simp_all

lemma keeps_strings_fix_openai [simp]: "keeps_strings fix_openai_validation_errors"
  using keeps_strings_fuel by (auto simp: keeps_strings_def fix_openai_validation_errors_def)

lemma fix_openai_validation_errors_simps:
  "fix_openai_validation_errors (PDict d) =
     PDict (map_values (on_nested fix_openai_validation_errors)
              (fix_properties fix_openai_validation_errors (add_default_items d)))"
  "fix_openai_validation_errors PNone = PNone"
  "fix_openai_validation_errors (PBool b) = PBool b"
  "fix_openai_validation_errors (PInt i) = PInt i"
  "fix_openai_validation_errors (PFloat m e) = PFloat m e"
  "fix_openai_validation_errors (PStr s) = PStr s"
  "fix_openai_validation_errors (PList xs) = PList xs"
  "fix_openai_validation_errors (PObj a t c) = PObj a t c"
proof -
  obtain n where n: "weight (PDict d) = Suc n" by simp
  let ?d1 = "add_default_items d"
  have w1: "weight (PDict ?d1) = Suc n" using n by simp
  have small: "fix_openai_fuel n v = fix_openai_validation_errors v" if "weight v < Suc n" for v
    using that by (intro fix_openai_fuel_eq) simp
  have fp: "fix_properties (fix_openai_fuel n) ?d1 = fix_properties fix_openai_validation_errors ?d1"
  proof (rule fix_properties_cong)
    fix props k v y
    assume p: "dict_get ?d1 ''properties'' = Some (PDict props)"
      and kv: "(k, v) \<in> set (fix_args props)"
    from kv have "weight v < weight (PDict (fix_args props))" by (rule weight_value_less)
    also have "\<dots> = weight (PDict props)" by simp
    also have "\<dots> < weight (PDict ?d1)"
      using dict_get_mem[OF p] by (rule weight_value_less)
    finally show "fix_openai_fuel n v = fix_openai_validation_errors v"
      using w1 small by simp
  qed
  let ?d2 = "fix_properties (fix_openai_fuel n) ?d1"
  have w2: "weight (PDict ?d2) = Suc n"
    using weight_fix_properties[of ?d1 "fix_openai_fuel n"] w1 by simp
  have mv: "map_values (on_nested (fix_openai_fuel n)) ?d2 =
            map_values (on_nested fix_openai_validation_errors) ?d2"
  proof (rule map_values_on_nested_cong)
    fix k v y assume "(k, v) \<in> set ?d2"
    then have "weight v < Suc n" using weight_value_less w2 by metis
    then show "fix_openai_fuel n v = fix_openai_validation_errors v" by (rule small)
  next
    fix k xs v y assume "(k, PList xs) \<in> set ?d2" "v \<in> set xs"
    then have "weight v < Suc n" using weight_item_less w2 by metis
    then show "fix_openai_fuel n v = fix_openai_validation_errors v" by (rule small)
  qed
  show "fix_openai_validation_errors (PDict d) =
     PDict (map_values (on_nested fix_openai_validation_errors)
              (fix_properties fix_openai_validation_errors (add_default_items d)))"
    unfolding fix_openai_validation_errors_def[of "PDict d"] n
    using fp mv by simp
qed (simp_all add: fix_openai_validation_errors_def)

lemma normal_items_iff: "normal_items options d = (\<forall>(k, v) \<in> set d. normal options v)"
  by (induction d) auto

lemma normal_list_iff: "normal_list options xs = (\<forall>x \<in> set xs. normal options x)"
  by (induction xs) auto

lemma normal_value: "normal_items options d \<Longrightarrow> (k, v) \<in> set d \<Longrightarrow> normal options v"
  by (auto simp: normal_items_iff)

lemma normal_item: "normal_list options xs \<Longrightarrow> x \<in> set xs \<Longrightarrow> normal options x"
  by (auto simp: normal_list_iff)

lemma dict_set_same: "dict_get d k = Some v \<Longrightarrow> dict_set d k v = d"
  by (simp add: dict_get_def dict_set_def update_triv)

lemma map_values_id: "(\<And>k v. (k, v) \<in> set d \<Longrightarrow> f v = v) \<Longrightarrow> map_values f d = d"
  by (induction d) (auto simp: map_values_def)

lemma fix_openai_normal:
  "normal options v \<Longrightarrow> fix_openai_validation_errors v = v"
proof (induction v rule: measure_induct_rule[where f = weight])
  case (less v)
  show ?case
  proof (cases v)
    case (PDict d)
    with less.prems have nf: "node_fixed options d" and ni: "normal_items options d" by auto
    have child: "fix_openai_validation_errors x = x" if "(k, x) \<in> set d" for k x
      using less.IH[of x] normal_value[OF ni that] weight_value_less[OF that] PDict
      by simp
    have add: "add_default_items d = d"
      using nf by (simp add: node_fixed_def add_default_items_def)
    have fp: "fix_properties fix_openai_validation_errors d = d"
    proof (cases "\<exists>props. dict_get d ''properties'' = Some (PDict props)")
      case True
      then obtain props where p: "dict_get d ''properties'' = Some (PDict props)" by blast
      from dict_get_mem[OF p] ni have np: "normal options (PDict props)"
        by (rule normal_value[rotated])
      have wp: "weight (PDict props) < weight v"
        using weight_value_less[OF dict_get_mem[OF p]] PDict by simp
      have fa: "fix_args props = props"
      proof (cases "\<exists>a. dict_get props ''args'' = Some (PDict a)")
        case True
        then obtain a where a: "dict_get props ''args'' = Some (PDict a)" by blast
        from np have "normal_items options props" by simp
        from this dict_get_mem[OF a] have "normal options (PDict a)"
          by (rule normal_value)
        then have "add_default_items a = a"
          by (simp add: node_fixed_def add_default_items_def)
        with a show ?thesis by (simp add: fix_args_def dict_set_same)
      next
        case False
        then show ?thesis by (auto simp: fix_args_def split: option.splits py_value.splits)
      qed
      have "map_values (on_dict fix_openai_validation_errors) props = props"
      proof (rule map_values_id)
        fix k x assume kx: "(k, x) \<in> set props"
        from np have "normal_items options props" by simp
        from this kx have "normal options x" by (rule normal_value)
        moreover have "weight x < weight v"
          using weight_value_less[OF kx] wp by simp
        ultimately have "fix_openai_validation_errors x = x" by (intro less.IH)
        then show "on_dict fix_openai_validation_errors x = x"
          by (auto simp: on_dict_def split: py_value.splits)
      qed
      with p fa show ?thesis by (simp add: fix_properties_def dict_set_same)
    next
      case False
      then show ?thesis by (auto simp: fix_properties_def split: option.splits py_value.splits)
    qed
    have "map_values (on_nested fix_openai_validation_errors) d = d"
    proof (rule map_values_id)
      fix k x assume kx: "(k, x) \<in> set d"
      show "on_nested fix_openai_validation_errors x = x"
      proof (cases x)
        case (PList xs)
        have "map (on_dict fix_openai_validation_errors) xs = xs"
        proof (rule map_idI)
          fix y assume y: "y \<in> set xs"
          from ni kx have "normal options x" by (rule normal_value)
          with PList have "normal_list options xs" by simp
          from this y have "normal options y" by (rule normal_item)
          moreover have "weight y < weight v"
            using weight_item_less[of k xs d y] kx y PList \<open>v = PDict d\<close> by simp
          ultimately have "fix_openai_validation_errors y = y" by (intro less.IH)
          then show "on_dict fix_openai_validation_errors y = y"
            by (auto simp: on_dict_def split: py_value.splits)
        qed
        with PList show ?thesis by (simp add: on_nested_def)
      qed (use child[OF kx] in \<open>auto simp: on_nested_def\<close>)
    qed
    with add fp PDict show ?thesis by (simp add: fix_openai_validation_errors_simps)
  qed (simp_all add: fix_openai_validation_errors_simps)
qed

lemma map_stringify_strs: "list_all is_str vals \<Longrightarrow> map (stringify rt) vals = vals"
proof (induction vals)
  case Nil
  then show ?case by simp
next
  case (Cons x xs)
  then show ?case by (cases x) (auto simp: stringify_def)
qed

lemma fix_node_normal:
  assumes "normal options (PDict d)"
  shows "fix_node rt options d = d"
proof -
  from assms have nf: "node_fixed options d" by simp
  have a: "dict_items (fix_openai_validation_errors (PDict d)) = d"
    using fix_openai_normal[OF assms] by simp
  have b: "coerce_type options d = d"
    using nf by (auto simp: coerce_type_def node_fixed_def split: option.splits py_value.splits)
  have c: "coerce_enum rt options d = d"
    using nf
    by (auto simp: coerce_enum_def node_fixed_def map_stringify_strs dict_set_same
          split: option.splits py_value.splits)
  have e: "add_items_aggressive options d = d"
    using nf by (simp add: add_items_aggressive_def node_fixed_def)
  from a b c e show ?thesis by (simp add: fix_node_def)
qed

lemma fix_schema_normal:
  "normal options v \<Longrightarrow> fix_schema_types_recursive rt options v = v"
proof (induction rt options v rule: fix_schema_types_recursive.induct)
  case (1 rt options d)
  have fn: "fix_node rt options d = d" using "1.prems" by (rule fix_node_normal)
  have "map_values (on_dict_or_list (fix_schema_types_recursive rt options)) d = d"
  proof (rule map_values_id)
    fix k x assume kx: "(k, x) \<in> set d"
    from "1.prems" have "normal_items options d" by simp
    from this kx have "normal options x" by (rule normal_value)
    then show "on_dict_or_list (fix_schema_types_recursive rt options) x = x"
      using "1.IH"[of k x] kx fn by (auto simp: on_dict_or_list_def)
  qed
  with fn show ?case by simp
next
  case (2 rt options xs)
  have "map (on_dict_or_list (fix_schema_types_recursive rt options)) xs = xs"
  proof (rule map_idI)
    fix x assume x: "x \<in> set xs"
    from "2.prems" have "normal_list options xs" by simp
    from this x have "normal options x" by (rule normal_item)
    then show "on_dict_or_list (fix_schema_types_recursive rt options) x = x"
      using "2.IH"[of x] x by (auto simp: on_dict_or_list_def)
  qed
  then show ?case by simp
qed simp_all

lemma needs_items_fix_openai:
  "\<not> needs_items (dict_items (fix_openai_validation_errors (PDict d)))"
proof -
  have ks: "keeps_strings (on_nested fix_openai_validation_errors)"
    by (rule keeps_strings_on_nested) simp
  have "needs_items (fix_properties fix_openai_validation_errors (add_default_items d)) =
        needs_items (add_default_items d)"
    by (auto simp: fix_properties_def needs_items_dict_set_other
          split: option.splits py_value.splits)
  then show ?thesis
    by (simp add: fix_openai_validation_errors_simps needs_items_map_values[OF ks])
qed

lemma coerce_type_no_list: "dict_get (coerce_type options d) ''type'' \<noteq> Some (PList ts)"
  by (auto simp: coerce_type_def dict_get_set split: option.splits py_value.splits)

lemma needs_items_coerce_type:
  "\<not> needs_items d \<Longrightarrow> convert_type_arrays_to options \<noteq> ''array'' \<Longrightarrow>
   \<not> needs_items (coerce_type options d)"
  by (auto simp: coerce_type_def needs_items_def dict_get_set split: option.splits py_value.splits)

lemma dict_get_coerce_enum:
  "k \<noteq> ''enum'' \<Longrightarrow> dict_get (coerce_enum rt options d) k = dict_get d k"
  by (auto simp: coerce_enum_def dict_get_set split: option.splits py_value.splits)

lemma is_str_stringify [simp]: "is_str (stringify rt v)"
  by (cases v) (simp_all add: stringify_def)

lemma coerce_enum_strs:
  "aggressive options \<Longrightarrow> dict_get (coerce_enum rt options d) ''enum'' = Some (PList vals) \<Longrightarrow>
   list_all is_str vals"
  by (auto simp: coerce_enum_def dict_get_set list_all_iff split: option.splits py_value.splits)

lemma dict_get_add_items_aggressive:
  "k \<noteq> ''items'' \<Longrightarrow> dict_get (add_items_aggressive options d) k = dict_get d k"
  by (simp add: add_items_aggressive_def dict_get_set)

lemma needs_items_add_items_aggressive:
  "aggressive options \<or> \<not> needs_items d \<Longrightarrow> \<not> needs_items (add_items_aggressive options d)"
  by (auto simp: add_items_aggressive_def needs_items_def dict_get_set)

lemma node_fixed_fix_node:
  assumes "aggressive options \<or> convert_type_arrays_to options \<noteq> ''array''"
  shows "node_fixed options (fix_node rt options d)"
proof -
  let ?d0 = "dict_items (fix_openai_validation_errors (PDict d))"
  let ?d1 = "coerce_type options ?d0"
  let ?d2 = "coerce_enum rt options ?d1"
  have n2: "needs_items ?d2 = needs_items ?d1"
    by (simp add: needs_items_def dict_get_coerce_enum)
  have "aggressive options \<or> \<not> needs_items ?d2"
    using assms needs_items_coerce_type[OF needs_items_fix_openai, of options d] n2 by auto
  then have a: "\<not> needs_items (fix_node rt options d)"
    unfolding fix_node_def by (rule needs_items_add_items_aggressive)
  have b: "dict_get (fix_node rt options d) ''type'' \<noteq> Some (PList ts)" for ts
    by (simp add: fix_node_def dict_get_add_items_aggressive dict_get_coerce_enum
          coerce_type_no_list)
  have c: "list_all is_str vals"
    if "aggressive options" "dict_get (fix_node rt options d) ''enum'' = Some (PList vals)" for vals
    using that coerce_enum_strs[of options rt ?d1 vals]
    by (simp add: fix_node_def dict_get_add_items_aggressive)
  from a b c show ?thesis by (auto simp: node_fixed_def)
qed

lemma fix_schema_shape:
  "(fix_schema_types_recursive rt options v = PStr s) = (v = PStr s)"
  "(\<exists>xs. fix_schema_types_recursive rt options v = PList xs) = (\<exists>ys. v = PList ys)"
  by (cases v; auto)+

lemma keeps_strings_fix_schema:
  "keeps_strings (on_dict_or_list (fix_schema_types_recursive rt options))"
  by (auto simp: keeps_strings_def on_dict_or_list_def fix_schema_shape)

lemma fix_schema_strs:
  "list_all is_str vals \<Longrightarrow>
   map (on_dict_or_list (fix_schema_types_recursive rt options)) vals = vals"
proof (induction vals)
  case Nil
  then show ?case by simp
next
  case (Cons x xs)
  then show ?case by (cases x) (auto simp: on_dict_or_list_def)
qed

lemma node_fixed_map_values:
  assumes "node_fixed options d"
  shows "node_fixed options
           (map_values (on_dict_or_list (fix_schema_types_recursive rt options)) d)"
proof -
  let ?g = "on_dict_or_list (fix_schema_types_recursive rt options)"
  have a: "\<not> needs_items (map_values ?g d)"
    using assms by (simp add: needs_items_map_values[OF keeps_strings_fix_schema] node_fixed_def)
  have lst: "\<exists>ys. v = PList ys \<and> xs = map ?g ys" if "?g v = PList xs" for v xs
    using that by (cases v) (auto simp: on_dict_or_list_def)
  have b: "dict_get (map_values ?g d) ''type'' \<noteq> Some (PList ts)" for ts
  proof
    assume "dict_get (map_values ?g d) ''type'' = Some (PList ts)"
    then obtain v where "dict_get d ''type'' = Some v" "?g v = PList ts"
      by (auto simp: dict_get_map_values)
    with lst[of v ts] assms show False by (auto simp: node_fixed_def)
  qed
  have c: "list_all is_str vals"
    if ag: "aggressive options" and e: "dict_get (map_values ?g d) ''enum'' = Some (PList vals)"
    for vals
  proof -
    from e obtain v where v: "dict_get d ''enum'' = Some v" "?g v = PList vals"
      by (auto simp: dict_get_map_values)
    with lst[of v vals] obtain ys where ys: "v = PList ys" "vals = map ?g ys" by blast
    with v assms ag have "list_all is_str ys" by (auto simp: node_fixed_def)
    with ys fix_schema_strs[of ys rt options] show ?thesis by simp
  qed
  from a b c show ?thesis by (auto simp: node_fixed_def)
qed

lemma fix_schema_gives_normal:
  assumes "aggressive options \<or> convert_type_arrays_to options \<noteq> ''array''"
  shows "normal options (fix_schema_types_recursive rt options v)"
  using assms
proof (induction rt options v rule: fix_schema_types_recursive.induct)
  case (1 rt options d)
  let ?g = "on_dict_or_list (fix_schema_types_recursive rt options)"
  let ?D = "fix_node rt options d"
  have nf: "node_fixed options (map_values ?g ?D)"
    by (rule node_fixed_map_values) (rule node_fixed_fix_node[OF "1.prems"])
  have "normal options (?g x)" if "(k, x) \<in> set ?D" for k x
  proof (cases "is_dict_or_list x")
    case True
    with "1.IH"[OF that True "1.prems"] show ?thesis by (simp add: on_dict_or_list_def)
  next
    case False
    then show ?thesis by (cases x) (simp_all add: on_dict_or_list_def)
  qed
  then have "normal_items options (map_values ?g ?D)"
    by (auto simp: normal_items_iff map_values_def)
  with nf show ?case by simp
next
  case (2 rt options xs)
  let ?g = "on_dict_or_list (fix_schema_types_recursive rt options)"
  have "normal options (?g x)" if "x \<in> set xs" for x
  proof (cases "is_dict_or_list x")
    case True
    with "2.IH"[OF that True "2.prems"] show ?thesis by (simp add: on_dict_or_list_def)
  next
    case False
    then show ?thesis by (cases x) (simp_all add: on_dict_or_list_def)
  qed
  then show ?case by (auto simp: normal_list_iff)
qed simp_all

lemmas schema_eval =
  fix_openai_validation_errors_simps fix_node_def coerce_type_def coerce_enum_def
  add_items_aggressive_def add_default_items_def needs_items_def fix_properties_def fix_args_def
  map_values_def on_dict_def on_nested_def on_dict_or_list_def dict_get_def dict_set_def
  default_items_def stringify_def str_int_def

text \<open>
  C9 (idempotence), as amended. In aggressive mode, or when the fallback type
  \<open>convert_type_arrays_to\<close> is not \<open>array\<close>, applying \<open>fix_schema_types_recursive\<close> with the
  same options to a schema it has already fixed changes nothing. This covers the options
  the agent uses and the defaults (fallback \<open>string\<close>, aggressive).
\<close>

theorem fix_schema_idempotent:
  assumes "aggressive options \<or> convert_type_arrays_to options \<noteq> ''array''"
  shows "fix_schema_types_recursive rt options (fix_schema_types_recursive rt options schema) =
         fix_schema_types_recursive rt options schema"
  by (rule fix_schema_normal) (rule fix_schema_gives_normal[OF assms])

text \<open>
  With the default options a schema with an \<open>args\<close> array, a list-valued \<open>type\<close>, an
  \<open>enum\<close> of mixed values and an array inside nested lists is repaired in one pass, and
  the second pass returns it unchanged.
\<close>

theorem fix_schema_idempotent_witness:
  "fix_schema_types_recursive (demo_runtime Hangs) SchemaFixOptions_default demo_schema =
     demo_schema_fixed \<and>
   fix_schema_types_recursive (demo_runtime Hangs) SchemaFixOptions_default demo_schema_fixed =
     demo_schema_fixed"
proof -
  have a: "fix_schema_types_recursive (demo_runtime Hangs) SchemaFixOptions_default demo_schema =
     demo_schema_fixed"
    by (simp add: schema_eval demo_schema_def demo_schema_fixed_def SchemaFixOptions_default_def)
  have "aggressive SchemaFixOptions_default" by (simp add: SchemaFixOptions_default_def)
  then have "aggressive SchemaFixOptions_default \<or>
             convert_type_arrays_to SchemaFixOptions_default \<noteq> ''array''" by simp
  from fix_schema_idempotent[OF this, of "demo_runtime Hangs" demo_schema] a
  show ?thesis by simp
qed

text \<open>
  The claim as written fails for the fallback type \<open>array\<close> without aggressive mode: the
  first pass turns the list-valued \<open>type\<close> into \<open>array\<close> after the \<open>items\<close> repair has run,
  and the second pass adds the \<open>items\<close>.
\<close>

theorem fix_schema_idempotent_counterexample:
  "fix_schema_types_recursive (demo_runtime Hangs) demo_options_array
      (PDict [(KStr ''type'', PList [PStr ''string'', PStr ''null''])]) =
     PDict [(KStr ''type'', PStr ''array'')] \<and>
   fix_schema_types_recursive (demo_runtime Hangs) demo_options_array
      (PDict [(KStr ''type'', PStr ''array'')]) =
     PDict [(KStr ''type'', PStr ''array''),
            (KStr ''items'', PDict [(KStr ''type'', PStr ''string'')])]"
  by (simp add: schema_eval demo_options_array_def)

end
